theory Spec2Isabelle
  imports Main
begin

section \<open>JavaScript values\<close>

text \<open>
  The plugin \<^verbatim>\<open>gatsby-source-kontent-rs/gatsby-node.js\<close> inspects content items
  dynamically (\<^verbatim>\<open>Object.keys\<close>, property reads, \<^verbatim>\<open>delete\<close>,
  \<^verbatim>\<open>JSON.stringify\<close>), so items are modelled as JavaScript values. Values are
  trees: there is no sharing and no cycle. Numbers are the integer-valued ones. A
  \<open>JDate\<close> is a valid \<^verbatim>\<open>Date\<close> object, carrying the ISO string its
  \<^verbatim>\<open>toJSON\<close> method returns. \<open>JFun\<close> is any function value. An object is the
  list of its own enumerable string-keyed properties in JavaScript's property order, keys
  distinct; a class instance is the object of its own properties.
\<close>

datatype jsval =
    JUndefined
  | JNull
  | JBool bool
  | JNum int
  | JStr string
  | JDate string
  | JFun
  | JArr "jsval list"
  | JObj "(string \<times> jsval) list"

type_synonym props = "(string \<times> jsval) list"

datatype error =
    TypeError
  | SyntaxError
  | FetchError
  | NotAString

text \<open>
  \<open>TypeError\<close> is a property read on \<^verbatim>\<open>null\<close> or \<^verbatim>\<open>undefined\<close>;
  \<open>SyntaxError\<close> is \<^verbatim>\<open>JSON.parse(undefined)\<close>; \<open>FetchError\<close> is a rejected
  promise of the delivery client. \<open>NotAString\<close> marks the edge of the model: a value that
  is not a string reached a change-case function or a template literal, where what happens
  depends on JavaScript's string coercion and on the version of the library. No theorem below
  speaks about runs that end there.
\<close>

fun truthy :: "jsval \<Rightarrow> bool" where
  "truthy JUndefined = False"
| "truthy JNull = False"
| "truthy (JBool b) = b"
| "truthy (JNum n) = (n \<noteq> 0)"
| "truthy (JStr s) = (s \<noteq> [])"
| "truthy (JDate s) = True"
| "truthy JFun = True"
| "truthy (JArr xs) = True"
| "truthy (JObj ps) = True"

definition getOwn :: "props \<Rightarrow> string \<Rightarrow> jsval" where
  "getOwn ps k = (case map_of ps k of None \<Rightarrow> JUndefined | Some v \<Rightarrow> v)"

text \<open>
  \<open>getProp v k\<close> is the read \<^verbatim>\<open>v.k\<close> for the property names the plugin reads
  (\<^verbatim>\<open>type\<close>, \<^verbatim>\<open>name\<close>, \<^verbatim>\<open>value\<close>, \<^verbatim>\<open>system\<close>, \<^verbatim>\<open>id\<close>, ...), none of
  which is inherited from a built-in prototype by an object, array, string, number, boolean
  or date.
\<close>

fun getProp :: "jsval \<Rightarrow> string \<Rightarrow> error + jsval" where
  "getProp JUndefined k = Inl TypeError"
| "getProp JNull k = Inl TypeError"
| "getProp (JObj ps) k = Inr (getOwn ps k)"
| "getProp v k = Inr JUndefined"

subsection \<open>Property order and assignment\<close>

definition digitChars :: string where
  "digitChars = ''0123456789''"

definition isDigit :: "char \<Rightarrow> bool" where
  "isDigit c = (c \<in> set digitChars)"

definition digitValue :: "char \<Rightarrow> nat" where
  "digitValue c = length (takeWhile (\<lambda>d. d \<noteq> c) digitChars)"

definition decimalValue :: "string \<Rightarrow> nat" where
  "decimalValue s = foldl (\<lambda>n c. 10 * n + digitValue c) 0 s"

text \<open>
  An array index is a canonical numeric string below \<open>2^32 - 1\<close>; an object lists such keys
  first, in ascending order, and every other key after them in creation order.
\<close>

definition arrayIndex :: "string \<Rightarrow> nat option" where
  "arrayIndex k =
     (if k \<noteq> [] \<and> list_all isDigit k \<and> (k = ''0'' \<or> hd k \<noteq> CHR ''0'')
         \<and> decimalValue k < 4294967295
      then Some (decimalValue k) else None)"

fun objReplace :: "string \<Rightarrow> 'v \<Rightarrow> (string \<times> 'v) list \<Rightarrow> (string \<times> 'v) list" where
  "objReplace k v [] = []"
| "objReplace k v (p # ps) = (if fst p = k then (k, v) # ps else p # objReplace k v ps)"

fun insertIndex :: "nat \<Rightarrow> string \<Rightarrow> 'v \<Rightarrow> (string \<times> 'v) list \<Rightarrow> (string \<times> 'v) list" where
  "insertIndex n k v [] = [(k, v)]"
| "insertIndex n k v (p # ps) =
     (case arrayIndex (fst p) of
        Some m \<Rightarrow> (if m < n then p # insertIndex n k v ps else (k, v) # p # ps)
      | None \<Rightarrow> (k, v) # p # ps)"

definition objSet :: "string \<Rightarrow> 'v \<Rightarrow> (string \<times> 'v) list \<Rightarrow> (string \<times> 'v) list" where
  "objSet k v ps =
     (if k \<in> set (map fst ps) then objReplace k v ps
      else case arrayIndex k of
             None \<Rightarrow> ps @ [(k, v)]
           | Some n \<Rightarrow> insertIndex n k v ps)"

definition objDelete :: "string \<Rightarrow> (string \<times> 'v) list \<Rightarrow> (string \<times> 'v) list" where
  "objDelete k ps = filter (\<lambda>p. fst p \<noteq> k) ps"

text \<open>\<^verbatim>\<open>Object.assign(target, source)\<close>: every own property of the source is set on the
  target, in the source's order.\<close>

definition objectAssign :: "(string \<times> 'v) list \<Rightarrow> (string \<times> 'v) list \<Rightarrow> (string \<times> 'v) list" where
  "objectAssign target source = fold (\<lambda>p acc. objSet (fst p) (snd p) acc) source target"

subsection \<open>The JSON round trip\<close>

text \<open>
  \<open>toJSON v\<close> is the value \<^verbatim>\<open>JSON.parse(JSON.stringify(v))\<close> builds, and \<open>None\<close> where
  \<^verbatim>\<open>JSON.stringify\<close> returns \<^verbatim>\<open>undefined\<close>: \<^verbatim>\<open>undefined\<close> and functions have no
  JSON form, an object drops the properties whose value has none, an array writes
  \<^verbatim>\<open>null\<close> for them, a date becomes its ISO string.
\<close>

fun toJSON :: "jsval \<Rightarrow> jsval option" where
  "toJSON JUndefined = None"
| "toJSON JFun = None"
| "toJSON JNull = Some JNull"
| "toJSON (JBool b) = Some (JBool b)"
| "toJSON (JNum n) = Some (JNum n)"
| "toJSON (JStr s) = Some (JStr s)"
| "toJSON (JDate s) = Some (JStr s)"
| "toJSON (JArr xs) =
     Some (JArr (map (\<lambda>x. case toJSON x of None \<Rightarrow> JNull | Some y \<Rightarrow> y) xs))"
| "toJSON (JObj ps) =
     Some (JObj (concat (map (\<lambda>p. case toJSON (snd p) of
                                      None \<Rightarrow> []
                                    | Some y \<Rightarrow> [(fst p, y)]) ps)))"

definition jsonRoundTrip :: "jsval \<Rightarrow> error + jsval" where
  "jsonRoundTrip v = (case toJSON v of None \<Rightarrow> Inl SyntaxError | Some w \<Rightarrow> Inr w)"

text \<open>The values a JSON text can denote: null, booleans, numbers, strings, arrays of such
  values and string-keyed objects of such values.\<close>

fun isJson :: "jsval \<Rightarrow> bool" where
  "isJson JUndefined = False"
| "isJson JFun = False"
| "isJson (JDate s) = False"
| "isJson JNull = True"
| "isJson (JBool b) = True"
| "isJson (JNum n) = True"
| "isJson (JStr s) = True"
| "isJson (JArr xs) = list_all isJson xs"
| "isJson (JObj ps) = list_all (\<lambda>p. isJson (snd p)) ps"

section \<open>The naming layer\<close>

text \<open>
  The three functions of the \<^verbatim>\<open>change-case\<close> package the plugin calls. The package is an
  external dependency, so the plugin's functions take it as a parameter.
\<close>

record changeCase =
  camelCase :: "string \<Rightarrow> string"
  pascalCase :: "string \<Rightarrow> string"
  paramCase :: "string \<Rightarrow> string"

definition getElementValueType :: "changeCase \<Rightarrow> string \<Rightarrow> string" where
  "getElementValueType cc elementType = ''Kontent'' @ pascalCase cc elementType @ ''Element''"

definition getGraphFieldName :: "changeCase \<Rightarrow> string \<Rightarrow> string" where
  "getGraphFieldName cc elementName = camelCase cc elementName"

definition getGraphTypeName :: "changeCase \<Rightarrow> string \<Rightarrow> string" where
  "getGraphTypeName cc typeName = ''KontentItem'' @ pascalCase cc typeName"

text \<open>A call of a change-case function, or a template-literal hole, on a value read from an
  item: the model follows it on strings.\<close>

definition asString :: "jsval \<Rightarrow> error + string" where
  "asString v = (case v of JStr s \<Rightarrow> Inr s | _ \<Rightarrow> Inl NotAString)"

definition andThen :: "error + 'a \<Rightarrow> ('a \<Rightarrow> error + 'b) \<Rightarrow> error + 'b" where
  "andThen r f = (case r of Inl e \<Rightarrow> Inl e | Inr x \<Rightarrow> f x)"

definition getNodeIdValue :: "changeCase \<Rightarrow> jsval \<Rightarrow> error + string" where
  "getNodeIdValue cc item =
     andThen (getProp item ''system'') (\<lambda>sys.
     andThen (getProp sys ''type'') (\<lambda>ty.
     andThen (asString ty) (\<lambda>t.
     andThen (getProp sys ''id'') (\<lambda>idv.
     andThen (asString idv) (\<lambda>i.
     Inr (paramCase cc t @ ''-'' @ i))))))"

subsection \<open>A model of change-case on ASCII strings\<close>

text \<open>
  Modelled from the spec: the \<^verbatim>\<open>change-case\<close> package is not among the sources. The
  spec names its three conversions PascalCase, camelCase and kebab-case; the definitions
  below follow the package (version 3) on ASCII input: a space is put between a lower-case
  letter or digit and an upper-case letter, and between two upper-case letters followed by a
  lower-case one; the words are the maximal runs of letters and digits, in lower case;
  \<^verbatim>\<open>paramCase\<close> joins them with \<open>-\<close>, \<^verbatim>\<open>camelCase\<close> capitalises every word after the
  first (a word that starts with a digit is joined with \<open>_\<close>), \<^verbatim>\<open>pascalCase\<close>
  capitalises the first letter as well.
\<close>

definition lowerChars :: string where
  "lowerChars = ''abcdefghijklmnopqrstuvwxyz''"

definition upperChars :: string where
  "upperChars = ''ABCDEFGHIJKLMNOPQRSTUVWXYZ''"

definition isLower :: "char \<Rightarrow> bool" where
  "isLower c = (c \<in> set lowerChars)"

definition isUpper :: "char \<Rightarrow> bool" where
  "isUpper c = (c \<in> set upperChars)"

definition toLower :: "char \<Rightarrow> char" where
  "toLower c = (case map_of (zip upperChars lowerChars) c of None \<Rightarrow> c | Some l \<Rightarrow> l)"

definition toUpper :: "char \<Rightarrow> char" where
  "toUpper c = (case map_of (zip lowerChars upperChars) c of None \<Rightarrow> c | Some u \<Rightarrow> u)"

fun splitCamel :: "string \<Rightarrow> string" where
  "splitCamel (a # b # cs) =
     (if (isLower a \<or> isDigit a) \<and> isUpper b then a # CHR '' '' # b # splitCamel cs
      else a # splitCamel (b # cs))"
| "splitCamel cs = cs"

fun splitUpper :: "string \<Rightarrow> string" where
  "splitUpper (a # b # c # cs) =
     (if isUpper a \<and> isUpper b \<and> isLower c then a # CHR '' '' # b # c # splitUpper cs
      else a # splitUpper (b # c # cs))"
| "splitUpper cs = cs"

fun splitWords :: "string \<Rightarrow> string \<Rightarrow> string list" where
  "splitWords w [] = (if w = [] then [] else [w])"
| "splitWords w (c # cs) =
     (if isLower c \<or> isUpper c \<or> isDigit c then splitWords (w @ [c]) cs
      else (if w = [] then [] else [w]) @ splitWords [] cs)"

definition noCaseWords :: "string \<Rightarrow> string list" where
  "noCaseWords s = map (map toLower) (splitWords [] (splitUpper (splitCamel s)))"

fun joinWith :: "string \<Rightarrow> string list \<Rightarrow> string" where
  "joinWith sep [] = []"
| "joinWith sep [w] = w"
| "joinWith sep (w # ws) = w @ sep @ joinWith sep ws"

definition upperCaseFirst :: "string \<Rightarrow> string" where
  "upperCaseFirst s = (case s of [] \<Rightarrow> [] | c # cs \<Rightarrow> toUpper c # cs)"

definition camelWord :: "string \<Rightarrow> string" where
  "camelWord w = (case w of [] \<Rightarrow> [] | c # cs \<Rightarrow> if isDigit c then CHR ''_'' # w else toUpper c # cs)"

definition asciiParamCase :: "string \<Rightarrow> string" where
  "asciiParamCase s = joinWith ''-'' (noCaseWords s)"

definition asciiCamelCase :: "string \<Rightarrow> string" where
  "asciiCamelCase s =
     (case noCaseWords s of [] \<Rightarrow> [] | w # ws \<Rightarrow> w @ concat (map camelWord ws))"

definition asciiPascalCase :: "string \<Rightarrow> string" where
  "asciiPascalCase s = upperCaseFirst (asciiCamelCase s)"

definition asciiChangeCase :: changeCase where
  "asciiChangeCase =
     \<lparr>camelCase = asciiCamelCase, pascalCase = asciiPascalCase, paramCase = asciiParamCase\<rparr>"

section \<open>Item projection\<close>

text \<open>The two host functions \<^verbatim>\<open>createItemNode\<close> is given.\<close>

record host =
  createNodeId :: "string \<Rightarrow> string"
  createContentDigest :: "jsval \<Rightarrow> string"

text \<open>The filter \<^verbatim>\<open>item[key] && item[key].type\<close>: the value is truthy, and so is its
  \<^verbatim>\<open>type\<close> property.\<close>

definition hasType :: "jsval \<Rightarrow> bool" where
  "hasType v = (truthy v \<and> (case getProp v ''type'' of Inl e \<Rightarrow> False | Inr t \<Rightarrow> truthy t))"

definition elementPropertyKeys :: "props \<Rightarrow> string list" where
  "elementPropertyKeys item = filter (\<lambda>key. hasType (getOwn item key)) (map fst item)"

text \<open>
  The callback of the \<^verbatim>\<open>reduce\<close>. Its state is the accumulator object and the item:
  in the last branch \<^verbatim>\<open>fieldValue\<close> is the element object of the item itself, so
  \<^verbatim>\<open>delete fieldValue.rawData\<close> changes the item; in the first two branches
  \<^verbatim>\<open>fieldValue\<close> is a new object. A key kept by the filter always holds an object,
  so the branch for other values is never taken.
\<close>

definition modularContentField :: "props \<Rightarrow> props" where
  "modularContentField elementValue =
     [(''name'', getOwn elementValue ''name''),
      (''type'', getOwn elementValue ''type''),
      (''value'', getOwn elementValue ''itemCodenames'')]"

definition richTextField :: "props \<Rightarrow> props" where
  "richTextField elementValue =
     [(''images'', getOwn elementValue ''images''),
      (''linkedItems'', getOwn elementValue ''linkedItemCodenames''),
      (''links'', getOwn elementValue ''links''),
      (''name'', getOwn elementValue ''name''),
      (''type'', getOwn elementValue ''type''),
      (''value'', getOwn elementValue ''value'')]"

definition elementStep :: "changeCase \<Rightarrow> string \<Rightarrow> props \<times> props \<Rightarrow> props \<times> props" where
  "elementStep cc key st =
     (let acc = fst st; item = snd st; fieldName = getGraphFieldName cc key
      in case getOwn item key of
           JObj elementValue \<Rightarrow>
             if getOwn elementValue ''type'' = JStr ''modular_content'' then
               (objSet fieldName
                  (JObj (objDelete ''rawData'' (modularContentField elementValue))) acc, item)
             else if getOwn elementValue ''type'' = JStr ''rich_text'' then
               (objSet fieldName
                  (JObj (objDelete ''rawData'' (richTextField elementValue))) acc, item)
             else
               (objSet fieldName (JObj (objDelete ''rawData'' elementValue)) acc,
                objReplace key (JObj (objDelete ''rawData'' elementValue)) item)
         | _ \<Rightarrow> (acc, item))"

definition ownProps :: "jsval \<Rightarrow> props" where
  "ownProps v = (case v of JObj ps \<Rightarrow> ps | _ \<Rightarrow> [])"

text \<open>
  The data of the node: the \<^verbatim>\<open>reduce\<close> over the element keys, then
  \<^verbatim>\<open>{system: item.system, elements: elements}\<close>. The first component is the item as the
  reduction leaves it.
\<close>

definition nodeDataOf :: "changeCase \<Rightarrow> props \<Rightarrow> props \<times> jsval" where
  "nodeDataOf cc item =
     (let st = fold (elementStep cc) (elementPropertyKeys item) ([], item)
      in (snd st, JObj [(''system'', getOwn (snd st) ''system''), (''elements'', JObj (fst st))]))"

definition nodeMetaOf :: "host \<Rightarrow> changeCase \<Rightarrow> jsval \<Rightarrow> error + props" where
  "nodeMetaOf h cc nodeData =
     andThen (getNodeIdValue cc nodeData) (\<lambda>idValue.
     andThen (getProp nodeData ''system'') (\<lambda>sys.
     andThen (getProp sys ''type'') (\<lambda>ty.
     andThen (asString ty) (\<lambda>t.
     Inr [(''id'', JStr (createNodeId h idValue)),
          (''parent'', JNull),
          (''children'', JArr []),
          (''internal'', JObj [(''type'', JStr (getGraphTypeName cc t)),
                              (''mediaType'', JStr ''text/html''),
                              (''contentDigest'', JStr (createContentDigest h nodeData))])]))))"

text \<open>\<^verbatim>\<open>createItemNode\<close> returns the item as the call leaves it, and the node or the
  error raised.\<close>

definition createItemNode :: "host \<Rightarrow> changeCase \<Rightarrow> props \<Rightarrow> props \<times> (error + jsval)" where
  "createItemNode h cc item =
     (fst (nodeDataOf cc item),
      andThen (jsonRoundTrip (snd (nodeDataOf cc item))) (\<lambda>nodeData.
      andThen (nodeMetaOf h cc nodeData) (\<lambda>nodeMeta.
      Inr (JObj (objectAssign (objectAssign [] (ownProps nodeData)) nodeMeta)))))"

subsection \<open>The union of root items and linked items\<close>

text \<open>
  Modelled from the spec: \<^verbatim>\<open>lodash/unionBy\<close> is an external dependency, not among the
  sources. The spec has it merge root items and linked items into one set keyed by the item
  codename, preferring the first occurrence; as in lodash, the key is read by the path
  \<^verbatim>\<open>system.codename\<close> (\<^verbatim>\<open>undefined\<close> where the path breaks), the two lists are
  concatenated, and a value is kept when its key is strictly equal to no key seen so far.
  Two objects or arrays are distinct references here, hence never strictly equal.
\<close>

definition systemCodename :: "props \<Rightarrow> jsval" where
  "systemCodename item =
     (case getOwn item ''system'' of JObj sys \<Rightarrow> getOwn sys ''codename'' | _ \<Rightarrow> JUndefined)"

fun isPrimitive :: "jsval \<Rightarrow> bool" where
  "isPrimitive JUndefined = True"
| "isPrimitive JNull = True"
| "isPrimitive (JBool b) = True"
| "isPrimitive (JNum n) = True"
| "isPrimitive (JStr s) = True"
| "isPrimitive v = False"

definition strictEquals :: "jsval \<Rightarrow> jsval \<Rightarrow> bool" where
  "strictEquals a b = (isPrimitive a \<and> a = b)"

fun baseUniq :: "('a \<Rightarrow> jsval) \<Rightarrow> 'a list \<Rightarrow> jsval list \<Rightarrow> 'a list" where
  "baseUniq iteratee [] seen = []"
| "baseUniq iteratee (x # xs) seen =
     (if list_ex (strictEquals (iteratee x)) seen then baseUniq iteratee xs seen
      else x # baseUniq iteratee xs (seen @ [iteratee x]))"

definition unionBy :: "'a list \<Rightarrow> 'a list \<Rightarrow> ('a \<Rightarrow> jsval) \<Rightarrow> 'a list" where
  "unionBy xs ys iteratee = baseUniq iteratee (xs @ ys) []"

section \<open>Type projection\<close>

text \<open>A content type as \<^verbatim>\<open>createTypeDef\<close> reads it: \<^verbatim>\<open>type.system.codename\<close> and,
  of every entry of \<^verbatim>\<open>type.elements\<close>, \<^verbatim>\<open>codename\<close> and \<^verbatim>\<open>type\<close>.\<close>

record elementDef =
  elementCodename :: string
  elementType :: string

record contentType =
  typeCodename :: string
  typeElements :: "elementDef list"

text \<open>The configuration handed to \<^verbatim>\<open>schema.buildObjectType\<close>. A field is given either
  as an object \<^verbatim>\<open>{type: T}\<close> or as the string \<^verbatim>\<open>T\<close>.\<close>

datatype fieldConfig = FieldObject string | FieldString string

record objectTypeConfig =
  configName :: string
  configFields :: "(string \<times> fieldConfig) list"
  configInterfaces :: "string list option"
  configInfer :: bool

definition elementFieldsOf :: "changeCase \<Rightarrow> elementDef list \<Rightarrow> (string \<times> fieldConfig) list" where
  "elementFieldsOf cc elements =
     fold (\<lambda>element acc.
             objSet (getGraphFieldName cc (elementCodename element))
                    (FieldObject (getElementValueType cc (elementType element))) acc)
          elements []"

definition createTypeDef ::
  "(objectTypeConfig \<Rightarrow> 'td) \<Rightarrow> changeCase \<Rightarrow> contentType \<Rightarrow> 'td list" where
  "createTypeDef buildObjectType cc type =
     [buildObjectType
        \<lparr>configName = getGraphTypeName cc (typeCodename type) @ ''Elements'',
         configFields = elementFieldsOf cc (typeElements type),
         configInterfaces = None,
         configInfer = False\<rparr>,
      buildObjectType
        \<lparr>configName = getGraphTypeName cc (typeCodename type),
         configFields =
           [(''system'', FieldString ''KontentItemSystem!''),
            (''elements'', FieldString (getGraphTypeName cc (typeCodename type) @ ''Elements''))],
         configInterfaces = Some [''Node'', ''KontentItem''],
         configInfer = False\<rparr>]"

subsection \<open>The base declarations\<close>

text \<open>The schema text of \<^verbatim>\<open>createBaseTypes\<close>, declaration by declaration: an interface
  or an object type, its directive, and its fields with their types and directives.\<close>

datatype fieldDirective = NoDirective | Dateformat | LinkBy string

datatype sdlDecl =
    SdlInterface string string "(string \<times> string \<times> fieldDirective) list"
  | SdlType string "string option" string "(string \<times> string \<times> fieldDirective) list"

definition elementHeader :: "(string \<times> string \<times> fieldDirective) list" where
  "elementHeader = [(''name'', ''String!'', NoDirective), (''type'', ''String!'', NoDirective)]"

definition createBaseTypes :: "sdlDecl list" where
  "createBaseTypes =
     [SdlInterface ''KontentItem'' ''nodeInterface''
        [(''id'', ''ID!'', NoDirective), (''system'', ''KontentItemSystem!'', NoDirective)],
      SdlInterface ''KontentElement'' ''dontInfer'' elementHeader,
      SdlType ''KontentItemSystem'' None ''infer''
        [(''codename'', ''String!'', NoDirective), (''id'', ''String!'', NoDirective),
         (''language'', ''String!'', NoDirective), (''lastModified'', ''Date!'', Dateformat),
         (''name'', ''String!'', NoDirective), (''type'', ''String!'', NoDirective)],
      SdlType ''KontentAsset'' None ''infer''
        [(''name'', ''String!'', NoDirective), (''description'', ''String'', NoDirective),
         (''type'', ''String!'', NoDirective), (''size'', ''Int!'', NoDirective),
         (''url'', ''String!'', NoDirective), (''width'', ''Int!'', NoDirective),
         (''height'', ''Int!'', NoDirective)],
      SdlType ''KontentAssetElement'' (Some ''KontentElement'') ''infer''
        (elementHeader @ [(''value'', ''[KontentAsset]'', NoDirective)]),
      SdlType ''KontentDateTimeElement'' (Some ''KontentElement'') ''infer''
        (elementHeader @ [(''value'', ''Date'', Dateformat)]),
      SdlType ''KontentModularContentElement'' (Some ''KontentElement'') ''infer''
        (elementHeader @ [(''value'', ''[KontentItem]'', LinkBy ''system.codename'')]),
      SdlType ''KontentMultipleChoiceElement'' (Some ''KontentElement'') ''infer'' elementHeader,
      SdlType ''KontentNumberElement'' (Some ''KontentElement'') ''infer''
        (elementHeader @ [(''value'', ''Float'', NoDirective)]),
      SdlType ''KontentRichTextElement'' (Some ''KontentElement'') ''infer''
        (elementHeader @
         [(''value'', ''String'', NoDirective),
          (''images'', ''[KontentRichTextImage]'', NoDirective),
          (''links'', ''[KontentRichTextLink]'', NoDirective),
          (''linkedItems'', ''[KontentItem]'', LinkBy ''system.codename'')]),
      SdlType ''KontentRichTextImage'' None ''infer''
        [(''description'', ''String'', NoDirective), (''height'', ''Int!'', NoDirective),
         (''imageId'', ''String!'', NoDirective), (''url'', ''String!'', NoDirective),
         (''width'', ''Int!'', NoDirective)],
      SdlType ''KontentRichTextLink'' None ''infer''
        [(''codename'', ''String!'', NoDirective), (''linkId'', ''String!'', NoDirective),
         (''type'', ''String!'', NoDirective), (''urlSlug'', ''String!'', NoDirective)],
      SdlType ''KontentTaxonomyElement'' (Some ''KontentElement'') ''infer''
        (elementHeader @
         [(''taxonomyGroup'', ''String!'', NoDirective),
          (''value'', ''[KontentTaxonomyItem]'', NoDirective)]),
      SdlType ''KontentTaxonomyItem'' None ''infer''
        [(''name'', ''String!'', NoDirective), (''codename'', ''String!'', NoDirective)],
      SdlType ''KontentTextElement'' (Some ''KontentElement'') ''infer''
        (elementHeader @ [(''value'', ''String'', NoDirective)]),
      SdlType ''KontentUrlSlugElement'' (Some ''KontentElement'') ''infer''
        (elementHeader @ [(''value'', ''String'', NoDirective)])]"

section \<open>The run\<close>

text \<open>
  A run of \<^verbatim>\<open>sourceNodes\<close> is the list of the calls it makes to the host, in order, and
  the error that stopped it, if any. The two responses of the delivery client are inputs:
  the error of a rejected promise, or the data of the response.
\<close>

datatype 'td hostCall =
    CreateTypesSdl "sdlDecl list"
  | CreateTypes "'td list"
  | CreateNode jsval

definition handleTypeCreation ::
  "(objectTypeConfig \<Rightarrow> 'td) \<Rightarrow> changeCase \<Rightarrow> error + contentType list
     \<Rightarrow> 'td hostCall list \<times> error option" where
  "handleTypeCreation buildObjectType cc response =
     (case response of
        Inl e \<Rightarrow> ([CreateTypesSdl createBaseTypes], Some e)
      | Inr types \<Rightarrow>
          ([CreateTypesSdl createBaseTypes,
            CreateTypes (fold (\<lambda>type acc. acc @ createTypeDef buildObjectType cc type) types [])],
           None))"

text \<open>The \<^verbatim>\<open>forEach\<close> over the merged items: an item whose node cannot be built raises,
  and ends the loop.\<close>

fun createNodes :: "host \<Rightarrow> changeCase \<Rightarrow> props list \<Rightarrow> 'td hostCall list \<times> error option" where
  "createNodes h cc [] = ([], None)"
| "createNodes h cc (item # items) =
     (case snd (createItemNode h cc item) of
        Inl e \<Rightarrow> ([], Some e)
      | Inr itemNode \<Rightarrow>
          (CreateNode itemNode # fst (createNodes h cc items), snd (createNodes h cc items)))"

definition handleNodeCreation ::
  "host \<Rightarrow> changeCase \<Rightarrow> error + props list \<times> props list \<Rightarrow> 'td hostCall list \<times> error option" where
  "handleNodeCreation h cc response =
     (case response of
        Inl e \<Rightarrow> ([], Some e)
      | Inr r \<Rightarrow> createNodes h cc (unionBy (fst r) (snd r) systemCodename))"

definition sourceNodes ::
  "(objectTypeConfig \<Rightarrow> 'td) \<Rightarrow> host \<Rightarrow> changeCase \<Rightarrow> error + contentType list
     \<Rightarrow> error + props list \<times> props list \<Rightarrow> 'td hostCall list \<times> error option" where
  "sourceNodes buildObjectType h cc typesResponse itemsResponse =
     (case snd (handleTypeCreation buildObjectType cc typesResponse) of
        Some e \<Rightarrow> (fst (handleTypeCreation buildObjectType cc typesResponse), Some e)
      | None \<Rightarrow>
          (let r = handleNodeCreation h cc itemsResponse
           in (fst (handleTypeCreation buildObjectType cc typesResponse) @ fst r, snd r)))"

section \<open>Notions used in the proofs\<close>

text \<open>
  \<open>fieldValueOf\<close> is the object \<^verbatim>\<open>fieldValue\<close> that the \<^verbatim>\<open>reduce\<close> callback stores
  for an element object, after the \<^verbatim>\<open>delete\<close>; \<open>normalizedField\<close> is the same for
  any value of a property, \<open>None\<close> where the callback stores nothing. \<open>stripRaw\<close> removes
  \<^verbatim>\<open>rawData\<close> from an object. \<open>pureStep\<close> is the callback's effect on the accumulator,
  read from the item as it was before the reduction; \<open>elementsOf\<close> is the
  \<^verbatim>\<open>elements\<close> object the reduction builds.
\<close>

definition fieldValueOf :: "props \<Rightarrow> props" where
  "fieldValueOf elementValue =
     (if getOwn elementValue ''type'' = JStr ''modular_content''
        then objDelete ''rawData'' (modularContentField elementValue)
      else if getOwn elementValue ''type'' = JStr ''rich_text''
        then objDelete ''rawData'' (richTextField elementValue)
      else objDelete ''rawData'' elementValue)"

definition normalizedField :: "jsval \<Rightarrow> jsval option" where
  "normalizedField v =
     (case v of JObj elementValue \<Rightarrow> Some (JObj (fieldValueOf elementValue)) | _ \<Rightarrow> None)"

definition stripRaw :: "jsval \<Rightarrow> jsval" where
  "stripRaw v = (case v of JObj ps \<Rightarrow> JObj (objDelete ''rawData'' ps) | _ \<Rightarrow> v)"

definition pureStep :: "changeCase \<Rightarrow> props \<Rightarrow> string \<Rightarrow> props \<Rightarrow> props" where
  "pureStep cc item key acc =
     (case normalizedField (getOwn item key) of
        None \<Rightarrow> acc
      | Some fieldValue \<Rightarrow> objSet (getGraphFieldName cc key) fieldValue acc)"

definition elementsOf :: "changeCase \<Rightarrow> props \<Rightarrow> props" where
  "elementsOf cc item = fold (pureStep cc item) (elementPropertyKeys item) []"

text \<open>The properties of an object after the JSON round trip.\<close>

definition jsonProps :: "props \<Rightarrow> props" where
  "jsonProps ps =
     concat (map (\<lambda>p. case toJSON (snd p) of None \<Rightarrow> [] | Some y \<Rightarrow> [(fst p, y)]) ps)"

text \<open>The node \<^verbatim>\<open>createItemNode\<close> returns for the canonical system record \<open>s\<close> with
  type codename \<open>t\<close> and id \<open>i\<close>, and the canonical elements \<open>e\<close>.\<close>

definition nodeOf :: "host \<Rightarrow> changeCase \<Rightarrow> string \<Rightarrow> string \<Rightarrow> jsval \<Rightarrow> jsval \<Rightarrow> jsval" where
  "nodeOf h cc t i s e =
     JObj [(''system'', s), (''elements'', e),
           (''id'', JStr (createNodeId h (paramCase cc t @ ''-'' @ i))),
           (''parent'', JNull),
           (''children'', JArr []),
           (''internal'',
            JObj [(''type'', JStr (getGraphTypeName cc t)),
                  (''mediaType'', JStr ''text/html''),
                  (''contentDigest'',
                   JStr (createContentDigest h (JObj [(''system'', s), (''elements'', e)])))])]"

section \<open>Sample data\<close>

text \<open>A host, and an item as the delivery client returns it: the system record and one
  text element, which carries the \<^verbatim>\<open>rawData\<close> of the response.\<close>

definition sampleHost :: host where
  "sampleHost =
     \<lparr>createNodeId = (\<lambda>s. ''node-'' @ s),
      createContentDigest = (\<lambda>v. concat (map fst (ownProps v)))\<rparr>"

definition sampleSystem :: props where
  "sampleSystem =
     [(''id'', JStr ''1''), (''name'', JStr ''Hello''), (''codename'', JStr ''hello''),
      (''type'', JStr ''blog_post''), (''lastModified'', JDate ''2019-10-01T00:00:00.000Z'')]"

definition sampleItem :: props where
  "sampleItem =
     [(''system'', JObj sampleSystem),
      (''title'', JObj [(''name'', JStr ''Title''), (''type'', JStr ''text''),
                        (''value'', JStr ''Hi''), (''rawData'', JObj [(''value'', JStr ''Hi'')])])]"

text \<open>The fingerprint of a node: \<^verbatim>\<open>node.internal.contentDigest\<close>.\<close>

definition fingerprintOf :: "jsval \<Rightarrow> error + jsval" where
  "fingerprintOf node = andThen (getProp node ''internal'') (\<lambda>internal. getProp internal ''contentDigest'')"

text \<open>A second host, which generates other node ids; the node of the sample item; and
  the sample item built without the raw response data.\<close>

definition otherHost :: host where
  "otherHost =
     \<lparr>createNodeId = (\<lambda>s. ''other-'' @ s),
      createContentDigest = (\<lambda>v. concat (map fst (ownProps v)))\<rparr>"

definition sampleNode :: "host \<Rightarrow> jsval" where
  "sampleNode h =
     nodeOf h asciiChangeCase ''blog_post'' ''1''
       (JObj [(''id'', JStr ''1''), (''name'', JStr ''Hello''), (''codename'', JStr ''hello''),
              (''type'', JStr ''blog_post''), (''lastModified'', JStr ''2019-10-01T00:00:00.000Z'')])
       (JObj [(''system'',
               JObj [(''id'', JStr ''1''), (''name'', JStr ''Hello''), (''codename'', JStr ''hello''),
                     (''type'', JStr ''blog_post''),
                     (''lastModified'', JStr ''2019-10-01T00:00:00.000Z'')]),
              (''title'',
               JObj [(''name'', JStr ''Title''), (''type'', JStr ''text''), (''value'', JStr ''Hi'')])])"

definition sampleItemNoRaw :: props where
  "sampleItemNoRaw =
     [(''system'', JObj sampleSystem),
      (''title'', JObj [(''name'', JStr ''Title''), (''type'', JStr ''text''),
                        (''value'', JStr ''Hi'')])]"

text \<open>The normalized rich-text element of the example: value \<^verbatim>\<open><p>hi</p>\<close>, no
  images, no links, one linked item \<^verbatim>\<open>c1\<close>.\<close>

definition richTextValue :: "string \<Rightarrow> jsval" where
  "richTextValue name =
     JObj [(''images'', JArr []),
           (''linkedItems'', JArr [JStr ''c1'']),
           (''links'', JArr []),
           (''name'', JStr name),
           (''type'', JStr ''rich_text''),
           (''value'', JStr ''<p>hi</p>'')]"

text \<open>An item with such an element as the delivery client builds it, with the raw response
  data, the resolved linked items and a resolver function; and its node.\<close>

definition sampleSystemJson :: jsval where
  "sampleSystemJson =
     JObj [(''id'', JStr ''1''), (''name'', JStr ''Hello''), (''codename'', JStr ''hello''),
           (''type'', JStr ''blog_post''), (''lastModified'', JStr ''2019-10-01T00:00:00.000Z'')]"

definition richElement :: props where
  "richElement =
     [(''name'', JStr ''Body''), (''type'', JStr ''rich_text''), (''value'', JStr ''<p>hi</p>''),
      (''images'', JArr []), (''links'', JArr []),
      (''linkedItemCodenames'', JArr [JStr ''c1'']),
      (''linkedItems'', JArr [JObj [(''system'', JObj [(''codename'', JStr ''c1'')])]]),
      (''rawData'', JObj [(''value'', JStr ''<p>hi</p>'')]),
      (''resolveHtml'', JFun)]"

definition richItem :: props where
  "richItem = [(''system'', JObj sampleSystem), (''body_text'', JObj richElement)]"

definition richNode :: jsval where
  "richNode =
     nodeOf sampleHost asciiChangeCase ''blog_post'' ''1'' sampleSystemJson
       (JObj [(''system'', sampleSystemJson), (''bodyText'', richTextValue ''Body'')])"

text \<open>A rich-text element whose \<^verbatim>\<open>linkedItemCodenames\<close> is missing, an item with it,
  and its node.\<close>

definition richElementNoLinks :: props where
  "richElementNoLinks =
     [(''name'', JStr ''Body''), (''type'', JStr ''rich_text''), (''value'', JStr ''<p>hi</p>''),
      (''images'', JArr []), (''links'', JArr []),
      (''rawData'', JObj [(''value'', JStr ''<p>hi</p>'')]),
      (''resolveHtml'', JFun)]"

definition richItemNoLinks :: props where
  "richItemNoLinks = [(''system'', JObj sampleSystem), (''body_text'', JObj richElementNoLinks)]"

definition richNodeNoLinks :: jsval where
  "richNodeNoLinks =
     nodeOf sampleHost asciiChangeCase ''blog_post'' ''1'' sampleSystemJson
       (JObj [(''system'', sampleSystemJson),
              (''bodyText'',
               JObj [(''images'', JArr []), (''links'', JArr []), (''name'', JStr ''Body''),
                     (''type'', JStr ''rich_text''), (''value'', JStr ''<p>hi</p>'')])])"

text \<open>Items of one content type with a title: \<^verbatim>\<open>A\<close>, \<^verbatim>\<open>B\<close> and \<^verbatim>\<open>C\<close>, and a second
  occurrence of \<^verbatim>\<open>B\<close> (same codename, other title) as it comes among the linked
  items.\<close>

definition articleItem :: "string \<Rightarrow> string \<Rightarrow> string \<Rightarrow> props" where
  "articleItem codename idv title =
     [(''system'', JObj [(''id'', JStr idv), (''codename'', JStr codename),
                         (''type'', JStr ''article'')]),
      (''title'', JObj [(''name'', JStr ''Title''), (''type'', JStr ''text''),
                        (''value'', JStr title)])]"

definition itemA :: props where
  "itemA = articleItem ''a'' ''1'' ''A''"

definition itemB :: props where
  "itemB = articleItem ''b'' ''2'' ''B, from the root items''"

definition itemBLinked :: props where
  "itemBLinked = articleItem ''b'' ''2'' ''B, from the linked items''"

definition itemC :: props where
  "itemC = articleItem ''c'' ''3'' ''C''"

text \<open>The content type of the sample item; the two registrations of a run; and the calls
  of the run on that content type and the sample item, with a host whose
  \<^verbatim>\<open>buildObjectType\<close> returns its configuration.\<close>

definition blogPostType :: contentType where
  "blogPostType =
     \<lparr>typeCodename = ''blog_post'',
      typeElements = [\<lparr>elementCodename = ''title'', elementType = ''text''\<rparr>]\<rparr>"

definition registration ::
  "(objectTypeConfig \<Rightarrow> 'td) \<Rightarrow> changeCase \<Rightarrow> contentType list \<Rightarrow> 'td hostCall list" where
  "registration buildObjectType cc types =
     [CreateTypesSdl createBaseTypes,
      CreateTypes (concat (map (createTypeDef buildObjectType cc) types))]"

definition sampleRun :: "objectTypeConfig hostCall list" where
  "sampleRun =
     [CreateTypesSdl createBaseTypes,
      CreateTypes (createTypeDef (\<lambda>config. config) asciiChangeCase blogPostType),
      CreateNode (sampleNode sampleHost)]"

text \<open>The field one element definition contributes to the elements type; a content type
  with two element codenames of the same camel-case form; and a content type with an
  element of a kind outside the catalog.\<close>

definition elementField :: "changeCase \<Rightarrow> elementDef \<Rightarrow> string \<times> fieldConfig" where
  "elementField cc element =
     (getGraphFieldName cc (elementCodename element),
      FieldObject (getElementValueType cc (elementType element)))"

definition collidingType :: contentType where
  "collidingType =
     \<lparr>typeCodename = ''page'',
      typeElements = [\<lparr>elementCodename = ''a_b'', elementType = ''text''\<rparr>,
                      \<lparr>elementCodename = ''a__b'', elementType = ''number''\<rparr>]\<rparr>"

definition newKindType :: contentType where
  "newKindType =
     \<lparr>typeCodename = ''page'',
      typeElements = [\<lparr>elementCodename = ''extra'', elementType = ''new_kind_v2''\<rparr>]\<rparr>"

section \<open>Objects\<close>

lemma map_of_objReplace:
  "map_of (objReplace k v ps) k' = (if k' = k \<and> k \<in> fst ` set ps then Some v else map_of ps k')"
  by (induction ps) (auto simp: rev_image_eqI)

lemma map_of_insertIndex:
  "k \<notin> fst ` set ps \<Longrightarrow>
   map_of (insertIndex n k v ps) k' = (if k' = k then Some v else map_of ps k')"
  by (induction ps) (auto split: option.splits)

lemma map_of_append_new:
  "k \<notin> fst ` set ps \<Longrightarrow> map_of (ps @ [(k, v)]) k' = (if k' = k then Some v else map_of ps k')"
  by (induction ps) auto

lemma map_of_objSet: "map_of (objSet k v ps) k' = (if k' = k then Some v else map_of ps k')"
proof (cases "k \<in> fst ` set ps")
  case True
  then show ?thesis by (simp add: objSet_def map_of_objReplace)
next
  case False
  then show ?thesis
    by (cases "arrayIndex k")
       (simp_all add: objSet_def map_of_insertIndex map_of_append_new del: map_of_append)
qed

lemma keys_objReplace: "map fst (objReplace k v ps) = map fst ps"
  by (induction ps) auto

lemma keys_insertIndex: "fst ` set (insertIndex n k v ps) = insert k (fst ` set ps)"
  by (induction ps) (auto split: option.splits)

lemma keys_objSet: "fst ` set (objSet k v ps) = insert k (fst ` set ps)"
proof (cases "k \<in> fst ` set ps")
  case True
  have "fst ` set (objReplace k v ps) = fst ` set ps"
    using keys_objReplace [of k v ps] by (metis set_map)
  with True show ?thesis by (auto simp: objSet_def)
next
  case False
  then show ?thesis by (simp add: objSet_def keys_insertIndex split: option.splits)
qed

lemma distinct_insertIndex:
  "k \<notin> fst ` set ps \<Longrightarrow> distinct (map fst ps) \<Longrightarrow> distinct (map fst (insertIndex n k v ps))"
proof (induction ps)
  case Nil
  then show ?case by simp
next
  case (Cons p ps)
  then have "fst p \<notin> fst ` set (insertIndex n k v ps)"
    unfolding keys_insertIndex by auto
  with Cons show ?case by (auto split: option.splits)
qed

lemma distinct_objSet:
  "distinct (map fst ps) \<Longrightarrow> distinct (map fst (objSet k v ps))"
  by (simp add: objSet_def keys_objReplace distinct_insertIndex split: option.splits)

lemma getOwn_objSet: "getOwn (objSet k v ps) k' = (if k' = k then v else getOwn ps k')"
  by (simp add: getOwn_def map_of_objSet)

lemma map_of_objDelete: "map_of (objDelete k ps) k' = (if k' = k then None else map_of ps k')"
  by (induction ps) (auto simp: objDelete_def)

lemma getOwn_objDelete: "getOwn (objDelete k ps) k' = (if k' = k then JUndefined else getOwn ps k')"
  by (simp add: getOwn_def map_of_objDelete)

lemma objDelete_idem: "objDelete k (objDelete k ps) = objDelete k ps"
  by (simp add: objDelete_def)

lemma getOwn_objReplace:
  "getOwn (objReplace k v ps) k' = (if k' = k \<and> k \<in> fst ` set ps then v else getOwn ps k')"
  by (simp add: getOwn_def map_of_objReplace)


section \<open>The reduction over the element keys\<close>

lemma fieldValueOf_objDelete: "fieldValueOf (objDelete ''rawData'' ev) = fieldValueOf ev"
  by (simp add: fieldValueOf_def getOwn_objDelete modularContentField_def richTextField_def
      objDelete_idem)

lemma normalizedField_stripRaw: "normalizedField (stripRaw v) = normalizedField v"
  by (cases v) (simp_all add: normalizedField_def stripRaw_def fieldValueOf_objDelete)

lemma stripRaw_idem: "stripRaw (stripRaw v) = stripRaw v"
  by (cases v) (simp_all add: stripRaw_def objDelete_idem)

lemma normalizedField_cong:
  "stripRaw a = stripRaw b \<Longrightarrow> normalizedField a = normalizedField b"
  by (metis normalizedField_stripRaw)


lemma elementStep_JObj:
  "getOwn item key = JObj ev \<Longrightarrow>
   elementStep cc key (acc, item) =
     (objSet (getGraphFieldName cc key) (JObj (fieldValueOf ev)) acc,
      if getOwn ev ''type'' = JStr ''modular_content'' \<or> getOwn ev ''type'' = JStr ''rich_text''
      then item else objReplace key (JObj (objDelete ''rawData'' ev)) item)"
  by (simp add: elementStep_def fieldValueOf_def)

lemma elementStep_other:
  "\<forall>ev. getOwn item key \<noteq> JObj ev \<Longrightarrow> elementStep cc key (acc, item) = (acc, item)"
  by (cases "getOwn item key") (auto simp: elementStep_def)

lemma fst_elementStep:
  "fst (elementStep cc key (acc, item)) = pureStep cc item key acc"
proof (cases "\<exists>ev. getOwn item key = JObj ev")
  case True
  then obtain ev where ev: "getOwn item key = JObj ev" by blast
  show ?thesis
    by (simp add: elementStep_JObj [OF ev] pureStep_def normalizedField_def ev)
next
  case False
  then have "elementStep cc key (acc, item) = (acc, item)"
    by (intro elementStep_other) blast
  moreover have "normalizedField (getOwn item key) = None"
    using False by (cases "getOwn item key") (simp_all add: normalizedField_def)
  ultimately show ?thesis by (simp add: pureStep_def)
qed

lemma snd_elementStep:
  "stripRaw (getOwn (snd (elementStep cc key (acc, item))) k) = stripRaw (getOwn item k)"
proof (cases "\<exists>ev. getOwn item key = JObj ev")
  case True
  then obtain ev where ev: "getOwn item key = JObj ev" by blast
  have "stripRaw (getOwn (objReplace key (JObj (objDelete ''rawData'' ev)) item) k)
        = stripRaw (getOwn item k)"
  proof (cases "k = key \<and> key \<in> fst ` set item")
    case True
    then have "getOwn (objReplace key (JObj (objDelete ''rawData'' ev)) item) k
        = JObj (objDelete ''rawData'' ev)"
      by (simp add: getOwn_objReplace)
    with True ev show ?thesis by (simp add: stripRaw_def objDelete_idem)
  next
    case False
    then have "getOwn (objReplace key (JObj (objDelete ''rawData'' ev)) item) k = getOwn item k"
      unfolding getOwn_objReplace by (simp only: if_False)
    then show ?thesis by simp
  qed
  then show ?thesis
    by (simp add: elementStep_JObj [OF ev])
next
  case False
  then show ?thesis by (simp add: elementStep_other)
qed

lemma keys_snd_elementStep:
  "map fst (snd (elementStep cc key (acc, item))) = map fst item"
proof (cases "\<exists>ev. getOwn item key = JObj ev")
  case True
  then obtain ev where ev: "getOwn item key = JObj ev" by blast
  show ?thesis
    by (simp add: elementStep_JObj [OF ev] keys_objReplace)
next
  case False
  then show ?thesis by (simp add: elementStep_other)
qed

lemma pureStep_cong:
  "stripRaw (getOwn item' key) = stripRaw (getOwn item key) \<Longrightarrow>
   pureStep cc item' key acc = pureStep cc item key acc"
  using normalizedField_cong [of "getOwn item' key" "getOwn item key"]
  by (simp add: pureStep_def)

lemma fold_pureStep_cong:
  assumes "\<And>k. stripRaw (getOwn item' k) = stripRaw (getOwn item k)"
  shows "fold (pureStep cc item') ks acc = fold (pureStep cc item) ks acc"
proof (induction ks arbitrary: acc)
  case Nil
  show ?case by simp
next
  case (Cons x ks)
  have "pureStep cc item' x acc = pureStep cc item x acc"
    by (rule pureStep_cong) (rule assms)
  with Cons show ?case by simp
qed

lemma fold_elementStep:
  "fst (fold (elementStep cc) ks (acc, item)) = fold (pureStep cc item) ks acc \<and>
   (\<forall>k. stripRaw (getOwn (snd (fold (elementStep cc) ks (acc, item))) k) = stripRaw (getOwn item k)) \<and>
   map fst (snd (fold (elementStep cc) ks (acc, item))) = map fst item"
proof (induction ks arbitrary: acc item)
  case Nil
  then show ?case by simp
next
  case (Cons x ks)
  obtain acc' item' where st: "elementStep cc x (acc, item) = (acc', item')"
    by (cases "elementStep cc x (acc, item)")
  have acc': "acc' = pureStep cc item x acc"
    using fst_elementStep [of cc x acc item] st by simp
  have item': "\<And>k. stripRaw (getOwn item' k) = stripRaw (getOwn item k)"
    using snd_elementStep [of cc x acc item] st by simp
  have keys': "map fst item' = map fst item"
    using keys_snd_elementStep [of cc x acc item] st by simp
  note IH = Cons.IH [of acc' item']
  have "fold (pureStep cc item') ks acc' = fold (pureStep cc item) ks acc'"
    by (rule fold_pureStep_cong) (rule item')
  with IH st acc' item' keys' show ?case by simp
qed


section \<open>The JSON round trip preserves and drops\<close>

lemma toJSON_JObj: "toJSON (JObj ps) = Some (JObj (jsonProps ps))"
  by (simp add: jsonProps_def)

lemma jsonProps_Nil: "jsonProps [] = []"
  by (simp add: jsonProps_def)

lemma jsonProps_Cons:
  "jsonProps (p # ps) = (case toJSON (snd p) of None \<Rightarrow> [] | Some y \<Rightarrow> [(fst p, y)]) @ jsonProps ps"
  by (simp add: jsonProps_def)

lemma toJSON_isJson: "toJSON v = Some w \<Longrightarrow> isJson w"
proof (induction v arbitrary: w rule: toJSON.induct)
  case (8 xs)
  have "list_all isJson (map (\<lambda>x. case toJSON x of None \<Rightarrow> JNull | Some y \<Rightarrow> y) xs)"
    unfolding list_all_iff
  proof
    fix y assume "y \<in> set (map (\<lambda>x. case toJSON x of None \<Rightarrow> JNull | Some y \<Rightarrow> y) xs)"
    then obtain x where x: "x \<in> set xs" "y = (case toJSON x of None \<Rightarrow> JNull | Some y \<Rightarrow> y)"
      by auto
    show "isJson y"
    proof (cases "toJSON x")
      case None
      with x show ?thesis by simp
    next
      case (Some z)
      with x "8.IH" [of x z] show ?thesis by simp
    qed
  qed
  with "8.prems" show ?case by auto
next
  case (9 ps)
  have "list_all (\<lambda>p. isJson (snd p)) (jsonProps ps)"
    unfolding list_all_iff
  proof
    fix q assume "q \<in> set (jsonProps ps)"
    then obtain p where p: "p \<in> set ps" "toJSON (snd p) = Some (snd q)"
      by (auto simp: jsonProps_def split: option.splits)
    with "9.IH" [of p "snd q"] show "isJson (snd q)" by simp
  qed
  with "9.prems" show ?case by (auto simp: jsonProps_def)
qed auto

lemma set_jsonProps:
  "set (jsonProps ps) = {(k, w). \<exists>v. (k, v) \<in> set ps \<and> toJSON v = Some w}"
proof (induction ps)
  case Nil
  show ?case by (simp add: jsonProps_Nil)
next
  case (Cons p ps)
  obtain k v where p: "p = (k, v)" by (cases p)
  show ?case
    by (cases "toJSON v") (auto simp: p jsonProps_Cons Cons.IH)
qed

lemma keys_jsonProps:
  "(k \<in> fst ` set (jsonProps ps)) = (\<exists>v w. (k, v) \<in> set ps \<and> toJSON v = Some w)"
  by (force simp: set_jsonProps)

lemma map_of_jsonProps:
  "map_of ps k = Some v \<Longrightarrow> toJSON v = Some w \<Longrightarrow> map_of (jsonProps ps) k = Some w"
  by (induction ps) (auto simp: jsonProps_Cons split: option.splits if_splits)

lemma map_of_jsonProps_None:
  "map_of ps k = None \<Longrightarrow> map_of (jsonProps ps) k = None"
  by (induction ps) (auto simp: jsonProps_Nil jsonProps_Cons split: option.splits if_splits)

lemma map_of_jsonProps_dropped:
  "distinct (map fst ps) \<Longrightarrow> map_of ps k = Some v \<Longrightarrow> toJSON v = None \<Longrightarrow>
   map_of (jsonProps ps) k = None"
proof (induction ps)
  case Nil
  then show ?case by simp
next
  case (Cons p ps)
  show ?case
  proof (cases "fst p = k")
    case True
    with Cons.prems have "map_of ps k = None"
      by (simp add: map_of_eq_None_iff)
    then have "map_of (jsonProps ps) k = None" by (rule map_of_jsonProps_None)
    with True Cons.prems show ?thesis
      by (cases p) (simp add: jsonProps_Cons)
  next
    case False
    with Cons show ?thesis
      by (cases p) (auto simp: jsonProps_Cons split: option.splits)
  qed
qed

lemma distinct_jsonProps: "distinct (map fst ps) \<Longrightarrow> distinct (map fst (jsonProps ps))"
proof (induction ps)
  case Nil
  then show ?case by (simp add: jsonProps_Nil)
next
  case (Cons p ps)
  have "fst ` set (jsonProps ps) \<subseteq> fst ` set ps"
    by (force simp: set_jsonProps)
  with Cons show ?case
    by (auto simp: jsonProps_Cons split: option.splits)
qed


section \<open>The elements object\<close>

lemma fold_snoc: "fold f (xs @ [x]) s = f x (fold f xs s)"
  by simp

lemma pureStep_None:
  "normalizedField (getOwn item k) = None \<Longrightarrow> pureStep cc item k acc = acc"
  by (simp add: pureStep_def)

lemma pureStep_Some:
  "normalizedField (getOwn item k) = Some fv \<Longrightarrow>
   pureStep cc item k acc = objSet (getGraphFieldName cc k) fv acc"
  by (simp add: pureStep_def)

lemma set_objReplace: "set (objReplace k v ps) \<subseteq> insert (k, v) (set ps)"
  by (induction ps) auto

lemma set_insertIndex: "set (insertIndex n k v ps) = insert (k, v) (set ps)"
  by (induction ps) (auto split: option.splits)

lemma set_objSet: "set (objSet k v ps) \<subseteq> insert (k, v) (set ps)"
  using set_objReplace [of k v ps]
  by (auto simp: objSet_def set_insertIndex split: option.splits)

lemma keys_pureStep:
  "fst ` set (pureStep cc item k acc) =
     (if normalizedField (getOwn item k) = None then fst ` set acc
      else insert (getGraphFieldName cc k) (fst ` set acc))"
  by (cases "normalizedField (getOwn item k)") (simp_all add: pureStep_def keys_objSet)

lemma keys_fold_pureStep:
  "fst ` set (fold (pureStep cc item) ks acc) =
     fst ` set acc \<union>
     getGraphFieldName cc ` {k \<in> set ks. normalizedField (getOwn item k) \<noteq> None}"
proof (induction ks rule: rev_induct)
  case Nil
  show ?case by simp
next
  case (snoc x ks)
  show ?case
  proof (cases "normalizedField (getOwn item x)")
    case None
    then show ?thesis
      using snoc.IH by (auto simp: pureStep_None)
  next
    case (Some a)
    then show ?thesis
      using snoc.IH by (auto simp: pureStep_Some keys_objSet)
  qed
qed

lemma distinct_fold_pureStep:
  "distinct (map fst acc) \<Longrightarrow> distinct (map fst (fold (pureStep cc item) ks acc))"
proof (induction ks rule: rev_induct)
  case Nil
  then show ?case by simp
next
  case (snoc x ks)
  then show ?case
    by (cases "normalizedField (getOwn item x)")
       (simp_all add: pureStep_None pureStep_Some distinct_objSet)
qed

lemma map_of_fold_pureStep:
  assumes "k \<in> set ks" and "normalizedField (getOwn item k) = Some fv"
    and "\<forall>k' \<in> set ks. getGraphFieldName cc k' = getGraphFieldName cc k \<longrightarrow> k' = k"
  shows "map_of (fold (pureStep cc item) ks acc) (getGraphFieldName cc k) = Some fv"
  using assms
proof (induction ks rule: rev_induct)
  case Nil
  then show ?case by simp
next
  case (snoc x ks)
  show ?case
  proof (cases "x = k")
    case True
    with snoc.prems show ?thesis
      by (simp add: pureStep_Some map_of_objSet)
  next
    case False
    with snoc.prems have neq: "getGraphFieldName cc x \<noteq> getGraphFieldName cc k"
      by auto
    from False snoc.prems have "k \<in> set ks" by simp
    with snoc have IH: "map_of (fold (pureStep cc item) ks acc) (getGraphFieldName cc k) = Some fv"
      by simp
    show ?thesis
    proof (cases "normalizedField (getOwn item x)")
      case None
      with IH show ?thesis by (simp add: pureStep_None)
    next
      case (Some a)
      with IH neq show ?thesis by (simp add: pureStep_Some map_of_objSet)
    qed
  qed
qed

lemma values_fold_pureStep:
  "(f, v) \<in> set (fold (pureStep cc item) ks acc) \<Longrightarrow>
   (f, v) \<in> set acc \<or>
   (\<exists>k \<in> set ks. f = getGraphFieldName cc k \<and> normalizedField (getOwn item k) = Some v)"
proof (induction ks arbitrary: f v rule: rev_induct)
  case Nil
  then show ?case by simp
next
  case (snoc x ks)
  show ?case
  proof (cases "normalizedField (getOwn item x)")
    case None
    with snoc.prems have "(f, v) \<in> set (fold (pureStep cc item) ks acc)"
      by (simp add: pureStep_None)
    from snoc.IH [OF this] show ?thesis by auto
  next
    case (Some a)
    let ?prev = "fold (pureStep cc item) ks acc"
    from snoc.prems Some have "(f, v) \<in> set (objSet (getGraphFieldName cc x) a ?prev)"
      by (simp add: pureStep_Some)
    with set_objSet [of "getGraphFieldName cc x" a ?prev]
    have "(f, v) = (getGraphFieldName cc x, a) \<or> (f, v) \<in> set ?prev"
      by auto
    then show ?thesis
    proof
      assume "(f, v) = (getGraphFieldName cc x, a)"
      with Some show ?thesis by auto
    next
      assume "(f, v) \<in> set ?prev"
      from snoc.IH [OF this] show ?thesis by auto
    qed
  qed
qed


section \<open>The shape of a node\<close>

lemma fst_nodeDataOf:
  "stripRaw (getOwn (fst (nodeDataOf cc item)) k) = stripRaw (getOwn item k)"
  using fold_elementStep [of cc "elementPropertyKeys item" "[]" item]
  by (simp add: nodeDataOf_def Let_def)

lemma snd_nodeDataOf:
  "snd (nodeDataOf cc item) =
     JObj [(''system'', getOwn (fst (nodeDataOf cc item)) ''system''),
           (''elements'', JObj (elementsOf cc item))]"
  using fold_elementStep [of cc "elementPropertyKeys item" "[]" item]
  by (simp add: nodeDataOf_def Let_def elementsOf_def)

lemma objectAssign_node:
  "objectAssign (objectAssign [] [(''system'', s), (''elements'', e)])
     [(''id'', a), (''parent'', b), (''children'', c), (''internal'', d)]
   = [(''system'', s), (''elements'', e), (''id'', a), (''parent'', b), (''children'', c),
      (''internal'', d)]"
  by (simp add: objectAssign_def objSet_def arrayIndex_def isDigit_def digitChars_def)

lemma jsonRoundTrip_nodeData:
  "jsonRoundTrip (JObj [(''system'', sv), (''elements'', JObj els)]) =
     Inr (JObj ((case toJSON sv of None \<Rightarrow> [] | Some s \<Rightarrow> [(''system'', s)])
                @ [(''elements'', JObj (jsonProps els))]))"
  by (simp add: jsonRoundTrip_def jsonProps_def split: option.splits)

lemma getNodeIdValue_Inr:
  "getNodeIdValue cc nd = Inr v \<Longrightarrow>
   \<exists>sys t i. getProp nd ''system'' = Inr sys \<and> getProp sys ''type'' = Inr (JStr t)
     \<and> getProp sys ''id'' = Inr (JStr i) \<and> v = paramCase cc t @ ''-'' @ i"
  by (auto simp: getNodeIdValue_def andThen_def asString_def split: sum.splits jsval.splits)

lemma getNodeIdValue_ok:
  "getProp nd ''system'' = Inr sys \<Longrightarrow> getProp sys ''type'' = Inr (JStr t) \<Longrightarrow>
   getProp sys ''id'' = Inr (JStr i) \<Longrightarrow>
   getNodeIdValue cc nd = Inr (paramCase cc t @ ''-'' @ i)"
  by (simp add: getNodeIdValue_def andThen_def asString_def)

lemma nodeMetaOf_ok:
  "getProp nd ''system'' = Inr sys \<Longrightarrow> getProp sys ''type'' = Inr (JStr t) \<Longrightarrow>
   getProp sys ''id'' = Inr (JStr i) \<Longrightarrow>
   nodeMetaOf h cc nd =
     Inr [(''id'', JStr (createNodeId h (paramCase cc t @ ''-'' @ i))),
          (''parent'', JNull),
          (''children'', JArr []),
          (''internal'', JObj [(''type'', JStr (getGraphTypeName cc t)),
                              (''mediaType'', JStr ''text/html''),
                              (''contentDigest'', JStr (createContentDigest h nd))])]"
  by (simp add: nodeMetaOf_def getNodeIdValue_ok andThen_def asString_def)

lemma nodeMetaOf_Inr:
  "nodeMetaOf h cc nd = Inr m \<Longrightarrow>
   \<exists>sys t i. getProp nd ''system'' = Inr sys \<and> getProp sys ''type'' = Inr (JStr t)
     \<and> getProp sys ''id'' = Inr (JStr i)"
  using getNodeIdValue_Inr [of cc nd]
  by (cases "getNodeIdValue cc nd") (auto simp: nodeMetaOf_def andThen_def)


lemma createItemNode_ok:
  assumes "toJSON (getOwn (fst (nodeDataOf cc item)) ''system'') = Some s"
    and "getProp s ''type'' = Inr (JStr t)" and "getProp s ''id'' = Inr (JStr i)"
  shows "snd (createItemNode h cc item) = Inr (nodeOf h cc t i s (JObj (jsonProps (elementsOf cc item))))"
proof -
  let ?e = "JObj (jsonProps (elementsOf cc item))"
  let ?nd = "JObj [(''system'', s), (''elements'', ?e)]"
  have rt: "jsonRoundTrip (snd (nodeDataOf cc item)) = Inr ?nd"
    by (simp add: snd_nodeDataOf jsonRoundTrip_nodeData assms(1))
  have sys: "getProp ?nd ''system'' = Inr s"
    by (simp add: getOwn_def)
  note meta = nodeMetaOf_ok [OF sys assms(2) assms(3), of h cc]
  show ?thesis
    by (simp add: createItemNode_def rt andThen_def meta ownProps_def objectAssign_node nodeOf_def)
qed

lemma createItemNode_Inr:
  assumes "snd (createItemNode h cc item) = Inr node"
  shows "\<exists>s t i. toJSON (getOwn (fst (nodeDataOf cc item)) ''system'') = Some s
           \<and> getProp s ''type'' = Inr (JStr t) \<and> getProp s ''id'' = Inr (JStr i)
           \<and> node = nodeOf h cc t i s (JObj (jsonProps (elementsOf cc item)))"
proof (cases "toJSON (getOwn (fst (nodeDataOf cc item)) ''system'')")
  case None
  let ?nd = "JObj [(''elements'', JObj (jsonProps (elementsOf cc item)))]"
  have rt: "jsonRoundTrip (snd (nodeDataOf cc item)) = Inr ?nd"
    by (simp add: snd_nodeDataOf jsonRoundTrip_nodeData None)
  have "nodeMetaOf h cc ?nd = Inl TypeError"
    by (simp add: nodeMetaOf_def getNodeIdValue_def andThen_def getOwn_def)
  with assms rt show ?thesis
    by (simp add: createItemNode_def andThen_def)
next
  case (Some s)
  let ?e = "JObj (jsonProps (elementsOf cc item))"
  let ?nd = "JObj [(''system'', s), (''elements'', ?e)]"
  have rt: "jsonRoundTrip (snd (nodeDataOf cc item)) = Inr ?nd"
    by (simp add: snd_nodeDataOf jsonRoundTrip_nodeData Some)
  from assms rt obtain m where m: "nodeMetaOf h cc ?nd = Inr m"
    by (cases "nodeMetaOf h cc ?nd") (simp_all add: createItemNode_def andThen_def)
  from nodeMetaOf_Inr [OF m] obtain t i where
    ti: "getProp s ''type'' = Inr (JStr t)" "getProp s ''id'' = Inr (JStr i)"
    by (auto simp: getOwn_def)
  from createItemNode_ok [OF Some ti, of h] assms have "node = nodeOf h cc t i s ?e"
    by simp
  with Some ti show ?thesis by blast
qed

lemma getOwn_eq_JStr: "getOwn ps k = JStr s \<Longrightarrow> map_of ps k = Some (JStr s)"
  by (simp add: getOwn_def split: option.splits)

lemma getOwn_jsonProps_JStr: "getOwn ps k = JStr s \<Longrightarrow> getOwn (jsonProps ps) k = JStr s"
  using map_of_jsonProps [of ps k "JStr s" "JStr s"]
  by (simp add: getOwn_eq_JStr getOwn_def)

lemma system_after:
  assumes "getOwn item ''system'' = JObj sys"
  shows "\<exists>sys'. getOwn (fst (nodeDataOf cc item)) ''system'' = JObj sys'
           \<and> objDelete ''rawData'' sys' = objDelete ''rawData'' sys"
proof -
  have "stripRaw (getOwn (fst (nodeDataOf cc item)) ''system'') = JObj (objDelete ''rawData'' sys)"
    using fst_nodeDataOf [of cc item "''system''"] assms by (simp add: stripRaw_def)
  then show ?thesis
    by (cases "getOwn (fst (nodeDataOf cc item)) ''system''") (simp_all add: stripRaw_def)
qed

lemma getOwn_modulo_rawData:
  "objDelete ''rawData'' a = objDelete ''rawData'' b \<Longrightarrow> k \<noteq> ''rawData'' \<Longrightarrow> getOwn a k = getOwn b k"
  by (metis getOwn_objDelete)

lemma createItemNode_wellformed:
  assumes "getOwn item ''system'' = JObj sys"
    and "getOwn sys ''type'' = JStr t" and "getOwn sys ''id'' = JStr i"
  shows "\<exists>s. toJSON (getOwn (fst (nodeDataOf cc item)) ''system'') = Some s \<and>
     getProp s ''type'' = Inr (JStr t) \<and> getProp s ''id'' = Inr (JStr i) \<and>
     snd (createItemNode h cc item) = Inr (nodeOf h cc t i s (JObj (jsonProps (elementsOf cc item))))"
proof -
  from system_after [OF assms(1)] obtain sys' where
    sys': "getOwn (fst (nodeDataOf cc item)) ''system'' = JObj sys'"
      "objDelete ''rawData'' sys' = objDelete ''rawData'' sys"
    by blast
  have "getOwn sys' ''type'' = JStr t" "getOwn sys' ''id'' = JStr i"
    using getOwn_modulo_rawData [OF sys'(2)] assms by simp_all
  then have ti: "getProp (JObj (jsonProps sys')) ''type'' = Inr (JStr t)"
      "getProp (JObj (jsonProps sys')) ''id'' = Inr (JStr i)"
    by (simp_all add: getOwn_jsonProps_JStr)
  have js: "toJSON (getOwn (fst (nodeDataOf cc item)) ''system'') = Some (JObj (jsonProps sys'))"
    by (simp add: sys' toJSON_JObj del: toJSON.simps)
  from createItemNode_ok [OF js ti] js ti show ?thesis by blast
qed


section \<open>The union and the loop over the items\<close>

lemma list_ex_strictEquals:
  "isPrimitive a \<Longrightarrow> list_ex (strictEquals a) seen = (a \<in> set seen)"
  by (auto simp: list_ex_iff strictEquals_def)

lemma keys_baseUniq:
  "list_all (\<lambda>x. isPrimitive (f x)) zs \<Longrightarrow>
   set (map f (baseUniq f zs seen)) = set (map f zs) - set seen"
proof (induction zs arbitrary: seen)
  case Nil
  show ?case by simp
next
  case (Cons z zs)
  then have p: "isPrimitive (f z)" and rest: "list_all (\<lambda>x. isPrimitive (f x)) zs"
    by simp_all
  show ?case
  proof (cases "f z \<in> set seen")
    case True
    with Cons.IH [OF rest, of seen] p show ?thesis
      by (auto simp: list_ex_strictEquals)
  next
    case False
    with Cons.IH [OF rest, of "seen @ [f z]"] p show ?thesis
      by (auto simp: list_ex_strictEquals)
  qed
qed

lemma distinct_baseUniq:
  "list_all (\<lambda>x. isPrimitive (f x)) zs \<Longrightarrow> distinct (map f (baseUniq f zs seen))"
proof (induction zs arbitrary: seen)
  case Nil
  show ?case by simp
next
  case (Cons z zs)
  then have p: "isPrimitive (f z)" and rest: "list_all (\<lambda>x. isPrimitive (f x)) zs"
    by simp_all
  show ?case
  proof (cases "f z \<in> set seen")
    case True
    with Cons.IH [OF rest, of seen] p show ?thesis
      by (simp add: list_ex_strictEquals)
  next
    case False
    have "f z \<notin> set (map f (baseUniq f zs (seen @ [f z])))"
      unfolding keys_baseUniq [OF rest] by simp
    with False Cons.IH [OF rest, of "seen @ [f z]"] p show ?thesis
      by (simp add: list_ex_strictEquals)
  qed
qed

lemma first_baseUniq:
  "list_all (\<lambda>x. isPrimitive (f x)) zs \<Longrightarrow> x \<in> set (baseUniq f zs seen) \<Longrightarrow>
   find (\<lambda>y. f y = f x) zs = Some x \<and> f x \<notin> set seen"
proof (induction zs arbitrary: seen)
  case Nil
  then show ?case by simp
next
  case (Cons z zs)
  then have p: "isPrimitive (f z)" and rest: "list_all (\<lambda>x. isPrimitive (f x)) zs"
    by simp_all
  show ?case
  proof (cases "f z \<in> set seen")
    case True
    with Cons.prems p have "x \<in> set (baseUniq f zs seen)"
      by (simp add: list_ex_strictEquals)
    from Cons.IH [OF rest this] True show ?thesis by auto
  next
    case False
    with Cons.prems p have "x = z \<or> x \<in> set (baseUniq f zs (seen @ [f z]))"
      by (simp add: list_ex_strictEquals)
    then show ?thesis
    proof
      assume "x = z"
      with False show ?thesis by simp
    next
      assume "x \<in> set (baseUniq f zs (seen @ [f z]))"
      from Cons.IH [OF rest this] show ?thesis by auto
    qed
  qed
qed

lemma createNodes_all_ok:
  "map (\<lambda>item. snd (createItemNode h cc item)) items = map Inr nodes \<Longrightarrow>
   createNodes h cc items = (map CreateNode nodes, None)"
proof (induction items arbitrary: nodes)
  case Nil
  then show ?case by simp
next
  case (Cons item items)
  then obtain n ns where nodes: "nodes = n # ns" by (cases nodes) auto
  with Cons.prems have "snd (createItemNode h cc item) = Inr n"
    and "map (\<lambda>item. snd (createItemNode h cc item)) items = map Inr ns"
    by simp_all
  with Cons.IH [of ns] nodes show ?case by simp
qed

lemma createNodes_calls:
  "\<exists>nodes. fst (createNodes h cc items :: 'td hostCall list \<times> error option) = map CreateNode nodes"
proof (induction items)
  case Nil
  show ?case by simp
next
  case (Cons item items)
  then obtain ns where
    ns: "fst (createNodes h cc items :: 'td hostCall list \<times> error option) = map CreateNode ns"
    by blast
  show ?case
  proof (cases "snd (createItemNode h cc item)")
    case (Inl e)
    then show ?thesis by simp
  next
    case (Inr n)
    with ns have "fst (createNodes h cc (item # items) :: 'td hostCall list \<times> error option)
        = map CreateNode (n # ns)"
      by simp
    then show ?thesis by blast
  qed
qed

lemma fold_concat: "fold (\<lambda>x acc. acc @ g x) xs ys = ys @ concat (map g xs)"
  by (induction xs arbitrary: ys) simp_all

section \<open>Node identity\<close>

text \<open>
  Claim C1. For every content item whose system record carries a type codename \<open>t\<close> and an
  item id \<open>i\<close> (both strings), \<^verbatim>\<open>createItemNode\<close> returns a node, and the
  identity key it hands to the host's \<^verbatim>\<open>createNodeId\<close> is the param-case
  (kebab-case) of \<open>t\<close>, followed by \<open>-\<close>, followed by \<open>i\<close>: a function of
  \<open>t\<close> and \<open>i\<close> alone, so the same item yields the same key on every run.
\<close>

theorem identity_key:
  assumes "getOwn item ''system'' = JObj sys"
    and "getOwn sys ''type'' = JStr t" and "getOwn sys ''id'' = JStr i"
  shows "\<exists>nodeData node.
           jsonRoundTrip (snd (nodeDataOf cc item)) = Inr nodeData
         \<and> getNodeIdValue cc nodeData = Inr (paramCase cc t @ ''-'' @ i)
         \<and> snd (createItemNode h cc item) = Inr node
         \<and> getProp node ''id'' = Inr (JStr (createNodeId h (paramCase cc t @ ''-'' @ i)))"
proof -
  from createItemNode_wellformed [OF assms, of cc h] obtain s where
    s: "toJSON (getOwn (fst (nodeDataOf cc item)) ''system'') = Some s"
    and ti: "getProp s ''type'' = Inr (JStr t)" "getProp s ''id'' = Inr (JStr i)"
    and node: "snd (createItemNode h cc item)
      = Inr (nodeOf h cc t i s (JObj (jsonProps (elementsOf cc item))))"
    by blast
  let ?e = "JObj (jsonProps (elementsOf cc item))"
  let ?nd = "JObj [(''system'', s), (''elements'', ?e)]"
  have rt: "jsonRoundTrip (snd (nodeDataOf cc item)) = Inr ?nd"
    by (simp add: snd_nodeDataOf jsonRoundTrip_nodeData s)
  have sys: "getProp ?nd ''system'' = Inr s"
    by (simp add: getOwn_def)
  have key: "getNodeIdValue cc ?nd = Inr (paramCase cc t @ ''-'' @ i)"
    by (rule getNodeIdValue_ok [OF sys ti])
  have "getProp (nodeOf h cc t i s ?e) ''id''
      = Inr (JStr (createNodeId h (paramCase cc t @ ''-'' @ i)))"
    by (simp add: nodeOf_def getOwn_def)
  with rt key node show ?thesis by simp
qed

theorem identity_key_witness:
  "getOwn sampleItem ''system'' = JObj sampleSystem
   \<and> getOwn sampleSystem ''type'' = JStr ''blog_post''
   \<and> getOwn sampleSystem ''id'' = JStr ''1''
   \<and> (\<exists>nodeData node.
           jsonRoundTrip (snd (nodeDataOf asciiChangeCase sampleItem)) = Inr nodeData
         \<and> getNodeIdValue asciiChangeCase nodeData = Inr ''blog-post-1''
         \<and> snd (createItemNode sampleHost asciiChangeCase sampleItem) = Inr node
         \<and> getProp node ''id'' = Inr (JStr ''node-blog-post-1''))"
proof -
  have a: "getOwn sampleItem ''system'' = JObj sampleSystem"
    by (simp add: sampleItem_def getOwn_def)
  have b: "getOwn sampleSystem ''type'' = JStr ''blog_post''"
    by (simp add: sampleSystem_def getOwn_def)
  have c: "getOwn sampleSystem ''id'' = JStr ''1''"
    by (simp add: sampleSystem_def getOwn_def)
  have p: "paramCase asciiChangeCase ''blog_post'' = ''blog-post''"
    by code_simp
  from identity_key [OF a b c, of asciiChangeCase sampleHost] a b c p
  show ?thesis by (simp add: sampleHost_def)
qed

section \<open>The fingerprint\<close>

lemma nodeOf_props:
  "getProp (nodeOf h cc t i s e) ''system'' = Inr s"
  "getProp (nodeOf h cc t i s e) ''elements'' = Inr e"
  "fingerprintOf (nodeOf h cc t i s e)
     = Inr (JStr (createContentDigest h (JObj [(''system'', s), (''elements'', e)])))"
  by (simp_all add: nodeOf_def getOwn_def fingerprintOf_def andThen_def)

lemma createItemNode_nodeData:
  assumes "snd (createItemNode h cc item) = Inr node"
  shows "\<exists>s e. getProp node ''system'' = Inr s \<and> getProp node ''elements'' = Inr e
       \<and> jsonRoundTrip (snd (nodeDataOf cc item)) = Inr (JObj [(''system'', s), (''elements'', e)])
       \<and> fingerprintOf node
           = Inr (JStr (createContentDigest h (JObj [(''system'', s), (''elements'', e)])))"
proof -
  from createItemNode_Inr [OF assms] obtain s t i where
    s: "toJSON (getOwn (fst (nodeDataOf cc item)) ''system'') = Some s"
    and node: "node = nodeOf h cc t i s (JObj (jsonProps (elementsOf cc item)))"
    by blast
  have "jsonRoundTrip (snd (nodeDataOf cc item))
      = Inr (JObj [(''system'', s), (''elements'', JObj (jsonProps (elementsOf cc item)))])"
    by (simp add: snd_nodeDataOf jsonRoundTrip_nodeData s)
  with node show ?thesis by (simp add: nodeOf_props)
qed

text \<open>
  Claim C5. The value handed to the host's digest function is the canonical object
  \<^verbatim>\<open>{system, elements}\<close> and nothing else: not the generated id, parent, children or
  internal type name. Hence two items whose nodes have the same system and elements get the
  same fingerprint from hosts that digest alike, whatever their id-generation functions
  return, and the same content gives the same digest input on every run.
\<close>

theorem fingerprint_of_content_only:
  assumes "snd (createItemNode h1 cc item1) = Inr node1"
    and "snd (createItemNode h2 cc item2) = Inr node2"
    and "createContentDigest h1 = createContentDigest h2"
    and "getProp node1 ''system'' = getProp node2 ''system''"
    and "getProp node1 ''elements'' = getProp node2 ''elements''"
  shows "fingerprintOf node1 = fingerprintOf node2
       \<and> (\<exists>s e. getProp node1 ''system'' = Inr s \<and> getProp node1 ''elements'' = Inr e
             \<and> jsonRoundTrip (snd (nodeDataOf cc item1))
                  = Inr (JObj [(''system'', s), (''elements'', e)])
             \<and> fingerprintOf node1
                  = Inr (JStr (createContentDigest h1 (JObj [(''system'', s), (''elements'', e)]))))"
proof -
  from createItemNode_nodeData [OF assms(1)] obtain s e where
    n1: "getProp node1 ''system'' = Inr s" "getProp node1 ''elements'' = Inr e"
      "jsonRoundTrip (snd (nodeDataOf cc item1)) = Inr (JObj [(''system'', s), (''elements'', e)])"
      "fingerprintOf node1
         = Inr (JStr (createContentDigest h1 (JObj [(''system'', s), (''elements'', e)])))"
    by blast
  from createItemNode_nodeData [OF assms(2)] obtain s' e' where
    n2: "getProp node2 ''system'' = Inr s'" "getProp node2 ''elements'' = Inr e'"
      "fingerprintOf node2
         = Inr (JStr (createContentDigest h2 (JObj [(''system'', s'), (''elements'', e')])))"
    by blast
  from n1(1,2) n2(1,2) assms(4,5) have "s' = s" "e' = e" by simp_all
  with n1 n2 assms(3) show ?thesis by simp
qed

theorem fingerprint_of_content_only_witness:
  "snd (createItemNode sampleHost asciiChangeCase sampleItem) = Inr (sampleNode sampleHost)
   \<and> snd (createItemNode otherHost asciiChangeCase sampleItemNoRaw) = Inr (sampleNode otherHost)
   \<and> createContentDigest sampleHost = createContentDigest otherHost
   \<and> getProp (sampleNode sampleHost) ''system'' = getProp (sampleNode otherHost) ''system''
   \<and> getProp (sampleNode sampleHost) ''elements'' = getProp (sampleNode otherHost) ''elements''
   \<and> getProp (sampleNode sampleHost) ''id'' \<noteq> getProp (sampleNode otherHost) ''id''
   \<and> fingerprintOf (sampleNode sampleHost) = fingerprintOf (sampleNode otherHost)
   \<and> fingerprintOf (sampleNode sampleHost) = Inr (JStr ''systemelements'')"
proof -
  have a: "snd (createItemNode sampleHost asciiChangeCase sampleItem) = Inr (sampleNode sampleHost)"
    by code_simp
  have b: "snd (createItemNode otherHost asciiChangeCase sampleItemNoRaw)
      = Inr (sampleNode otherHost)"
    by code_simp
  have c: "createContentDigest sampleHost = createContentDigest otherHost"
    by (simp add: sampleHost_def otherHost_def)
  have d: "getProp (sampleNode sampleHost) ''system'' = getProp (sampleNode otherHost) ''system''"
    by (simp add: sampleNode_def nodeOf_props)
  have e: "getProp (sampleNode sampleHost) ''elements'' = getProp (sampleNode otherHost) ''elements''"
    by (simp add: sampleNode_def nodeOf_props)
  have f: "getProp (sampleNode sampleHost) ''id'' \<noteq> getProp (sampleNode otherHost) ''id''"
    by (simp add: sampleNode_def nodeOf_def getOwn_def sampleHost_def otherHost_def)
  have g: "fingerprintOf (sampleNode sampleHost) = Inr (JStr ''systemelements'')"
    by (simp add: sampleNode_def nodeOf_props sampleHost_def ownProps_def)
  from fingerprint_of_content_only [OF a b c d e] a b c d e f g show ?thesis
    by simp
qed

section \<open>Normalization of an element\<close>

lemma mem_elementPropertyKeys:
  "getOwn item key = JObj ev \<Longrightarrow> truthy (getOwn ev ''type'') \<Longrightarrow>
   key \<in> set (elementPropertyKeys item)"
proof -
  assume a: "getOwn item key = JObj ev" and t: "truthy (getOwn ev ''type'')"
  from a have "map_of item key \<noteq> None"
    by (cases "map_of item key") (simp_all add: getOwn_def)
  then have "key \<in> fst ` set item"
    by (simp add: map_of_eq_None_iff)
  with a t show ?thesis
    by (simp add: elementPropertyKeys_def hasType_def)
qed

lemma elements_lookup:
  assumes "snd (createItemNode h cc item) = Inr node"
    and "key \<in> set (elementPropertyKeys item)"
    and "getOwn item key = JObj ev"
    and "\<forall>k' \<in> set (elementPropertyKeys item).
           getGraphFieldName cc k' = getGraphFieldName cc key \<longrightarrow> k' = key"
  shows "\<exists>e. getProp node ''elements'' = Inr (JObj e)
           \<and> getOwn e (getGraphFieldName cc key) = JObj (jsonProps (fieldValueOf ev))"
proof -
  from createItemNode_Inr [OF assms(1)] obtain s t i where
    node: "node = nodeOf h cc t i s (JObj (jsonProps (elementsOf cc item)))"
    by blast
  have nf: "normalizedField (getOwn item key) = Some (JObj (fieldValueOf ev))"
    by (simp add: assms(3) normalizedField_def)
  have "map_of (elementsOf cc item) (getGraphFieldName cc key) = Some (JObj (fieldValueOf ev))"
    unfolding elementsOf_def by (rule map_of_fold_pureStep [OF assms(2) nf assms(4)])
  then have "map_of (jsonProps (elementsOf cc item)) (getGraphFieldName cc key)
      = Some (JObj (jsonProps (fieldValueOf ev)))"
    by (rule map_of_jsonProps) (rule toJSON_JObj)
  then have "getOwn (jsonProps (elementsOf cc item)) (getGraphFieldName cc key)
      = JObj (jsonProps (fieldValueOf ev))"
    by (simp add: getOwn_def)
  with node show ?thesis
    by (simp add: nodeOf_props)
qed

text \<open>
  Claim C4. For every item with a rich-text element of value \<^verbatim>\<open><p>hi</p>\<close>, images
  \<^verbatim>\<open>[]\<close>, links \<^verbatim>\<open>[]\<close> and linked item codenames \<^verbatim>\<open>["c1"]\<close>, the element
  value stored for it has exactly the fields name, type, value, images, links and
  linkedItems \<^verbatim>\<open>["c1"]\<close>: no \<^verbatim>\<open>rawData\<close> and no resolved payload. The JSON round trip
  leaves it as it is, and it is the value of the element's field in the node when no other
  element key of the item has the same field name.
\<close>

theorem rich_text_normalization:
  assumes "getOwn item key = JObj elementValue"
    and "getOwn elementValue ''type'' = JStr ''rich_text''"
    and "getOwn elementValue ''name'' = JStr name"
    and "getOwn elementValue ''value'' = JStr ''<p>hi</p>''"
    and "getOwn elementValue ''images'' = JArr []"
    and "getOwn elementValue ''links'' = JArr []"
    and "getOwn elementValue ''linkedItemCodenames'' = JArr [JStr ''c1'']"
  shows "fst (elementStep cc key (acc, item))
           = objSet (getGraphFieldName cc key) (richTextValue name) acc
       \<and> toJSON (richTextValue name) = Some (richTextValue name)
       \<and> (snd (createItemNode h cc item) = Inr node
           \<and> (\<forall>k' \<in> set (elementPropertyKeys item).
                 getGraphFieldName cc k' = getGraphFieldName cc key \<longrightarrow> k' = key)
           \<longrightarrow> (\<exists>e. getProp node ''elements'' = Inr (JObj e)
                  \<and> getOwn e (getGraphFieldName cc key) = richTextValue name))"
proof -
  have fv: "JObj (fieldValueOf elementValue) = richTextValue name"
    using assms(2-7)
    by (simp add: fieldValueOf_def richTextField_def richTextValue_def objDelete_def)
  have step: "fst (elementStep cc key (acc, item))
      = objSet (getGraphFieldName cc key) (richTextValue name) acc"
    by (simp add: elementStep_JObj [OF assms(1)] fv)
  have js: "toJSON (richTextValue name) = Some (richTextValue name)"
    by (simp add: richTextValue_def)
  have jp: "JObj (jsonProps (fieldValueOf elementValue)) = richTextValue name"
    using js fv toJSON_JObj [of "fieldValueOf elementValue"] by simp
  have mem: "key \<in> set (elementPropertyKeys item)"
    by (rule mem_elementPropertyKeys [OF assms(1)]) (simp add: assms(2))
  have "\<exists>e. getProp node ''elements'' = Inr (JObj e)
          \<and> getOwn e (getGraphFieldName cc key) = richTextValue name"
    if "snd (createItemNode h cc item) = Inr node"
      and "\<forall>k' \<in> set (elementPropertyKeys item).
             getGraphFieldName cc k' = getGraphFieldName cc key \<longrightarrow> k' = key"
    using elements_lookup [OF that(1) mem assms(1) that(2)] jp by simp
  with step js show ?thesis by blast
qed

theorem rich_text_normalization_witness:
  "getOwn richItem ''body_text'' = JObj richElement
   \<and> getOwn richElement ''type'' = JStr ''rich_text''
   \<and> getOwn richElement ''name'' = JStr ''Body''
   \<and> getOwn richElement ''value'' = JStr ''<p>hi</p>''
   \<and> getOwn richElement ''images'' = JArr []
   \<and> getOwn richElement ''links'' = JArr []
   \<and> getOwn richElement ''linkedItemCodenames'' = JArr [JStr ''c1'']
   \<and> snd (createItemNode sampleHost asciiChangeCase richItem) = Inr richNode
   \<and> elementPropertyKeys richItem = [''system'', ''body_text'']
   \<and> getGraphFieldName asciiChangeCase ''system'' = ''system''
   \<and> getGraphFieldName asciiChangeCase ''body_text'' = ''bodyText''
   \<and> fst (elementStep asciiChangeCase ''body_text'' ([], richItem))
        = [(''bodyText'', richTextValue ''Body'')]
   \<and> (\<exists>e. getProp richNode ''elements'' = Inr (JObj e)
          \<and> getOwn e ''bodyText'' = richTextValue ''Body'')"
proof -
  have a: "getOwn richItem ''body_text'' = JObj richElement"
    by (simp add: richItem_def getOwn_def)
  have b: "getOwn richElement ''type'' = JStr ''rich_text''"
    "getOwn richElement ''name'' = JStr ''Body''"
    "getOwn richElement ''value'' = JStr ''<p>hi</p>''"
    "getOwn richElement ''images'' = JArr []"
    "getOwn richElement ''links'' = JArr []"
    "getOwn richElement ''linkedItemCodenames'' = JArr [JStr ''c1'']"
    by (simp_all add: richElement_def getOwn_def)
  have c: "snd (createItemNode sampleHost asciiChangeCase richItem) = Inr richNode"
    by code_simp
  have d: "elementPropertyKeys richItem = [''system'', ''body_text'']"
    by code_simp
  have e: "getGraphFieldName asciiChangeCase ''system'' = ''system''"
    "getGraphFieldName asciiChangeCase ''body_text'' = ''bodyText''"
    by code_simp+
  have f: "\<forall>k' \<in> set (elementPropertyKeys richItem).
      getGraphFieldName asciiChangeCase k' = getGraphFieldName asciiChangeCase ''body_text''
        \<longrightarrow> k' = ''body_text''"
    by (simp add: d e)
  have g: "objSet ''bodyText'' (richTextValue ''Body'') [] = [(''bodyText'', richTextValue ''Body'')]"
    by (simp add: objSet_def arrayIndex_def isDigit_def digitChars_def)
  from rich_text_normalization [OF a b, of asciiChangeCase "[]" sampleHost richNode]
    a b c d e f g
  show ?thesis by simp
qed

section \<open>The canonical form\<close>

lemma distinct_objDelete: "distinct (map fst ps) \<Longrightarrow> distinct (map fst (objDelete k ps))"
  by (simp add: objDelete_def distinct_map_filter)

lemma distinct_fieldValueOf:
  "distinct (map fst ev) \<Longrightarrow> distinct (map fst (fieldValueOf ev))"
proof -
  assume d: "distinct (map fst ev)"
  have m: "distinct (map fst (objDelete ''rawData'' (modularContentField ev)))"
    by (simp add: modularContentField_def objDelete_def)
  have r: "distinct (map fst (objDelete ''rawData'' (richTextField ev)))"
    by (simp add: richTextField_def objDelete_def)
  from d m r distinct_objDelete [of ev "''rawData''"] show ?thesis
    by (simp add: fieldValueOf_def)
qed

lemma richText_linkedItems_undefined:
  assumes "getOwn ev ''type'' = JStr ''rich_text''"
    and "getOwn ev ''linkedItemCodenames'' = JUndefined"
  shows "''linkedItems'' \<notin> fst ` set (jsonProps (fieldValueOf ev))"
proof
  assume "''linkedItems'' \<in> fst ` set (jsonProps (fieldValueOf ev))"
  then obtain v w where "(''linkedItems'', v) \<in> set (fieldValueOf ev)" "toJSON v = Some w"
    unfolding keys_jsonProps by blast
  with assms show False
    by (auto simp: fieldValueOf_def richTextField_def objDelete_def)
qed

lemma undefined_field_dropped:
  assumes "distinct (map fst ev)" and "map_of (fieldValueOf ev) f = Some JUndefined"
  shows "f \<notin> fst ` set (jsonProps (fieldValueOf ev))"
proof -
  have "map_of (jsonProps (fieldValueOf ev)) f = None"
    by (rule map_of_jsonProps_dropped [OF distinct_fieldValueOf [OF assms(1)] assms(2)]) simp
  then show ?thesis by (simp add: map_of_eq_None_iff)
qed

text \<open>
  Claim C10. The object \<^verbatim>\<open>{system, elements}\<close> goes through the JSON round trip before
  the identity key and the fingerprint are computed from it. So the system and the elements
  of the node are JSON values (null, booleans, numbers, strings, arrays, string-keyed
  objects), and a sub-field of an element whose value is \<^verbatim>\<open>undefined\<close> is absent from
  the node, not present as null: for example \<^verbatim>\<open>linkedItems\<close> of a rich-text element
  that has no \<^verbatim>\<open>linkedItemCodenames\<close>. (The element is read at its field name, which
  is its own when no other element key of the item has the same one.)
\<close>

theorem canonical_node_data:
  assumes "snd (createItemNode h cc item) = Inr node"
  shows "\<exists>s e idValue.
           jsonRoundTrip (snd (nodeDataOf cc item)) = Inr (JObj [(''system'', s), (''elements'', JObj e)])
         \<and> getNodeIdValue cc (JObj [(''system'', s), (''elements'', JObj e)]) = Inr idValue
         \<and> getProp node ''id'' = Inr (JStr (createNodeId h idValue))
         \<and> fingerprintOf node
              = Inr (JStr (createContentDigest h (JObj [(''system'', s), (''elements'', JObj e)])))
         \<and> getProp node ''system'' = Inr s \<and> getProp node ''elements'' = Inr (JObj e)
         \<and> isJson s \<and> isJson (JObj e)
         \<and> (\<forall>key ev.
               getOwn item key = JObj ev \<and> truthy (getOwn ev ''type'')
               \<and> (\<forall>k' \<in> set (elementPropertyKeys item).
                     getGraphFieldName cc k' = getGraphFieldName cc key \<longrightarrow> k' = key)
               \<longrightarrow> (\<exists>fields.
                      getOwn e (getGraphFieldName cc key) = JObj fields
                    \<and> toJSON (JObj (fieldValueOf ev)) = Some (JObj fields)
                    \<and> (\<forall>f. distinct (map fst ev) \<and> map_of (fieldValueOf ev) f = Some JUndefined
                            \<longrightarrow> f \<notin> fst ` set fields)
                    \<and> (getOwn ev ''type'' = JStr ''rich_text''
                         \<and> getOwn ev ''linkedItemCodenames'' = JUndefined
                         \<longrightarrow> ''linkedItems'' \<notin> fst ` set fields)))"
proof -
  from createItemNode_Inr [OF assms] obtain s t i where
    s: "toJSON (getOwn (fst (nodeDataOf cc item)) ''system'') = Some s"
    and ti: "getProp s ''type'' = Inr (JStr t)" "getProp s ''id'' = Inr (JStr i)"
    and node: "node = nodeOf h cc t i s (JObj (jsonProps (elementsOf cc item)))"
    by blast
  let ?e = "jsonProps (elementsOf cc item)"
  let ?nd = "JObj [(''system'', s), (''elements'', JObj ?e)]"
  have rt: "jsonRoundTrip (snd (nodeDataOf cc item)) = Inr ?nd"
    by (simp add: snd_nodeDataOf jsonRoundTrip_nodeData s)
  have sys: "getProp ?nd ''system'' = Inr s"
    by (simp add: getOwn_def)
  have key: "getNodeIdValue cc ?nd = Inr (paramCase cc t @ ''-'' @ i)"
    by (rule getNodeIdValue_ok [OF sys ti])
  have idp: "getProp node ''id'' = Inr (JStr (createNodeId h (paramCase cc t @ ''-'' @ i)))"
    by (simp add: node nodeOf_def getOwn_def)
  have fp: "fingerprintOf node = Inr (JStr (createContentDigest h ?nd))"
    by (simp add: node nodeOf_props)
  have props: "getProp node ''system'' = Inr s" "getProp node ''elements'' = Inr (JObj ?e)"
    by (simp_all add: node nodeOf_props)
  have js: "isJson s"
    by (rule toJSON_isJson [OF s])
  have je: "isJson (JObj ?e)"
    by (rule toJSON_isJson [OF toJSON_JObj])
  have el: "\<exists>fields.
        getOwn ?e (getGraphFieldName cc key) = JObj fields
      \<and> toJSON (JObj (fieldValueOf ev)) = Some (JObj fields)
      \<and> (\<forall>f. distinct (map fst ev) \<and> map_of (fieldValueOf ev) f = Some JUndefined
              \<longrightarrow> f \<notin> fst ` set fields)
      \<and> (getOwn ev ''type'' = JStr ''rich_text''
           \<and> getOwn ev ''linkedItemCodenames'' = JUndefined
           \<longrightarrow> ''linkedItems'' \<notin> fst ` set fields)"
    if "getOwn item key = JObj ev" and "truthy (getOwn ev ''type'')"
      and "\<forall>k' \<in> set (elementPropertyKeys item).
             getGraphFieldName cc k' = getGraphFieldName cc key \<longrightarrow> k' = key"
    for key ev
  proof -
    have mem: "key \<in> set (elementPropertyKeys item)"
      by (rule mem_elementPropertyKeys [OF that(1) that(2)])
    from elements_lookup [OF assms mem that(1) that(3)] props(2)
    have "getOwn ?e (getGraphFieldName cc key) = JObj (jsonProps (fieldValueOf ev))"
      by simp
    then show ?thesis
      using undefined_field_dropped [of ev] richText_linkedItems_undefined [of ev]
        toJSON_JObj [of "fieldValueOf ev"]
      by blast
  qed
  from rt key idp fp props js je el show ?thesis by blast
qed

theorem canonical_node_data_witness:
  "snd (createItemNode sampleHost asciiChangeCase richItemNoLinks) = Inr richNodeNoLinks
   \<and> getOwn richItemNoLinks ''body_text'' = JObj richElementNoLinks
   \<and> truthy (getOwn richElementNoLinks ''type'')
   \<and> elementPropertyKeys richItemNoLinks = [''system'', ''body_text'']
   \<and> getGraphFieldName asciiChangeCase ''system'' = ''system''
   \<and> getGraphFieldName asciiChangeCase ''body_text'' = ''bodyText''
   \<and> distinct (map fst richElementNoLinks)
   \<and> map_of (fieldValueOf richElementNoLinks) ''linkedItems'' = Some JUndefined
   \<and> getOwn richElementNoLinks ''type'' = JStr ''rich_text''
   \<and> getOwn richElementNoLinks ''linkedItemCodenames'' = JUndefined
   \<and> (\<exists>s e. getProp richNodeNoLinks ''system'' = Inr s
          \<and> getProp richNodeNoLinks ''elements'' = Inr (JObj e)
          \<and> isJson s \<and> isJson (JObj e)
          \<and> (\<exists>fields. getOwn e ''bodyText'' = JObj fields
                 \<and> ''linkedItems'' \<notin> fst ` set fields))"
proof -
  have a: "snd (createItemNode sampleHost asciiChangeCase richItemNoLinks) = Inr richNodeNoLinks"
    by code_simp
  have b: "getOwn richItemNoLinks ''body_text'' = JObj richElementNoLinks"
    by (simp add: richItemNoLinks_def getOwn_def)
  have c: "getOwn richElementNoLinks ''type'' = JStr ''rich_text''"
    "getOwn richElementNoLinks ''linkedItemCodenames'' = JUndefined"
    by (simp_all add: richElementNoLinks_def getOwn_def)
  have t: "truthy (getOwn richElementNoLinks ''type'')"
    by (simp add: c)
  have d: "elementPropertyKeys richItemNoLinks = [''system'', ''body_text'']"
    by code_simp
  have e: "getGraphFieldName asciiChangeCase ''system'' = ''system''"
    "getGraphFieldName asciiChangeCase ''body_text'' = ''bodyText''"
    by code_simp+
  have f: "\<forall>k' \<in> set (elementPropertyKeys richItemNoLinks).
      getGraphFieldName asciiChangeCase k' = getGraphFieldName asciiChangeCase ''body_text''
        \<longrightarrow> k' = ''body_text''"
    by (simp add: d e)
  have g: "distinct (map fst richElementNoLinks)"
    by (simp add: richElementNoLinks_def)
  have u: "map_of (fieldValueOf richElementNoLinks) ''linkedItems'' = Some JUndefined"
    by (simp add: fieldValueOf_def c richTextField_def objDelete_def)
  from canonical_node_data [OF a] obtain s el where
    p: "getProp richNodeNoLinks ''system'' = Inr s"
      "getProp richNodeNoLinks ''elements'' = Inr (JObj el)"
      "isJson s" "isJson (JObj el)"
    and q: "\<forall>key ev.
        getOwn richItemNoLinks key = JObj ev \<and> truthy (getOwn ev ''type'')
        \<and> (\<forall>k' \<in> set (elementPropertyKeys richItemNoLinks).
              getGraphFieldName asciiChangeCase k' = getGraphFieldName asciiChangeCase key
                \<longrightarrow> k' = key)
        \<longrightarrow> (\<exists>fields.
               getOwn el (getGraphFieldName asciiChangeCase key) = JObj fields
             \<and> toJSON (JObj (fieldValueOf ev)) = Some (JObj fields)
             \<and> (\<forall>f. distinct (map fst ev) \<and> map_of (fieldValueOf ev) f = Some JUndefined
                     \<longrightarrow> f \<notin> fst ` set fields)
             \<and> (getOwn ev ''type'' = JStr ''rich_text''
                  \<and> getOwn ev ''linkedItemCodenames'' = JUndefined
                  \<longrightarrow> ''linkedItems'' \<notin> fst ` set fields))"
    by blast
  from q b t f obtain fields where
    fl: "getOwn el (getGraphFieldName asciiChangeCase ''body_text'') = JObj fields"
    and ab: "\<forall>f. distinct (map fst richElementNoLinks)
          \<and> map_of (fieldValueOf richElementNoLinks) f = Some JUndefined
          \<longrightarrow> f \<notin> fst ` set fields"
    by blast
  from ab g u have "''linkedItems'' \<notin> fst ` set fields" by blast
  with fl e p have "\<exists>s e. getProp richNodeNoLinks ''system'' = Inr s
      \<and> getProp richNodeNoLinks ''elements'' = Inr (JObj e)
      \<and> isJson s \<and> isJson (JObj e)
      \<and> (\<exists>fields. getOwn e ''bodyText'' = JObj fields
             \<and> ''linkedItems'' \<notin> fst ` set fields)"
    by auto
  with a b t d e g u c show ?thesis by simp
qed

section \<open>Which properties become elements\<close>

text \<open>The fields of the node's \<^verbatim>\<open>elements\<close> are the field names of the keys the filter
  keeps: the properties of the item that hold an object with a truthy \<^verbatim>\<open>type\<close>.\<close>

lemma hasType_JObj: "hasType v \<Longrightarrow> \<exists>ev. v = JObj ev \<and> truthy (getOwn ev ''type'')"
  by (cases v) (simp_all add: hasType_def)

lemma normalizedField_elementKey:
  "key \<in> set (elementPropertyKeys item) \<Longrightarrow> normalizedField (getOwn item key) \<noteq> None"
proof -
  assume "key \<in> set (elementPropertyKeys item)"
  then have "hasType (getOwn item key)"
    by (simp add: elementPropertyKeys_def)
  from hasType_JObj [OF this] show ?thesis
    by (auto simp: normalizedField_def)
qed

lemma keys_elementsOf:
  "fst ` set (elementsOf cc item) = getGraphFieldName cc ` set (elementPropertyKeys item)"
proof -
  have "{k \<in> set (elementPropertyKeys item). normalizedField (getOwn item k) \<noteq> None}
      = set (elementPropertyKeys item)"
  proof (rule set_eqI)
    fix k
    show "(k \<in> {k \<in> set (elementPropertyKeys item). normalizedField (getOwn item k) \<noteq> None})
        = (k \<in> set (elementPropertyKeys item))"
      using normalizedField_elementKey [of k item] by auto
  qed
  then show ?thesis
    by (simp add: elementsOf_def keys_fold_pureStep)
qed

lemma values_elementsOf:
  assumes "(f, v) \<in> set (elementsOf cc item)"
  shows "\<exists>fv. v = JObj fv"
proof -
  from assms have "(f, v) \<in> set (fold (pureStep cc item) (elementPropertyKeys item) [])"
    by (simp add: elementsOf_def)
  from values_fold_pureStep [OF this]
  obtain k where k: "normalizedField (getOwn item k) = Some v" by auto
  show ?thesis
  proof (cases "getOwn item k")
    case (JObj ev)
    with k show ?thesis by (auto simp: normalizedField_def)
  qed (use k in \<open>simp_all add: normalizedField_def\<close>)
qed

lemma keys_json_elementsOf:
  "fst ` set (jsonProps (elementsOf cc item)) = getGraphFieldName cc ` set (elementPropertyKeys item)"
proof -
  have "fst ` set (jsonProps (elementsOf cc item)) = fst ` set (elementsOf cc item)"
  proof (rule set_eqI)
    fix k
    show "(k \<in> fst ` set (jsonProps (elementsOf cc item))) = (k \<in> fst ` set (elementsOf cc item))"
    proof
      assume "k \<in> fst ` set (jsonProps (elementsOf cc item))"
      then obtain v w where "(k, v) \<in> set (elementsOf cc item)" "toJSON v = Some w"
        unfolding keys_jsonProps by blast
      then show "k \<in> fst ` set (elementsOf cc item)"
        by (simp add: rev_image_eqI)
    next
      assume "k \<in> fst ` set (elementsOf cc item)"
      then obtain v where v: "(k, v) \<in> set (elementsOf cc item)" by auto
      from values_elementsOf [OF v] obtain fv where "v = JObj fv" by blast
      then have "toJSON v = Some (JObj (jsonProps fv))"
        by (simp add: toJSON_JObj del: toJSON.simps)
      with v have "\<exists>v w. (k, v) \<in> set (elementsOf cc item) \<and> toJSON v = Some w"
        by blast
      then show "k \<in> fst ` set (jsonProps (elementsOf cc item))"
        by (simp only: keys_jsonProps)
    qed
  qed
  then show ?thesis
    by (simp only: keys_elementsOf)
qed

lemma elements_keys:
  assumes "snd (createItemNode h cc item) = Inr node"
  shows "\<exists>e. getProp node ''elements'' = Inr (JObj e)
           \<and> fst ` set e = getGraphFieldName cc ` set (elementPropertyKeys item)"
proof -
  from createItemNode_Inr [OF assms] obtain s t i where
    node: "node = nodeOf h cc t i s (JObj (jsonProps (elementsOf cc item)))"
    by blast
  then show ?thesis
    by (simp add: nodeOf_props keys_json_elementsOf)
qed

lemma system_among_elements:
  assumes "snd (createItemNode h cc item) = Inr node"
    and "getOwn item ''system'' = JObj sys" and "truthy (getOwn sys ''type'')"
  shows "\<exists>e. getProp node ''elements'' = Inr (JObj e)
           \<and> getGraphFieldName cc ''system'' \<in> fst ` set e"
proof -
  from elements_keys [OF assms(1)] obtain e where
    e: "getProp node ''elements'' = Inr (JObj e)"
      "fst ` set e = getGraphFieldName cc ` set (elementPropertyKeys item)"
    by blast
  have "''system'' \<in> set (elementPropertyKeys item)"
    by (rule mem_elementPropertyKeys [OF assms(2) assms(3)])
  with e show ?thesis by simp
qed

text \<open>
  Claim C7 says that the elements of a node are exactly the item's properties that carry an
  element-kind tag, and that the system record is excluded. The filter keeps every property
  with a truthy \<^verbatim>\<open>type\<close>, and the system record has one, the codename of the content
  type: on the sample item, a system record and one text element, the keys kept are
  \<^verbatim>\<open>system\<close> and \<^verbatim>\<open>title\<close>, and the node's \<^verbatim>\<open>elements\<close> holds a copy of the
  system record under \<^verbatim>\<open>system\<close> beside the text element.
\<close>

theorem system_record_among_elements:
  "elementPropertyKeys sampleItem = [''system'', ''title'']
   \<and> snd (createItemNode sampleHost asciiChangeCase sampleItem) = Inr (sampleNode sampleHost)
   \<and> getProp (sampleNode sampleHost) ''elements''
       = Inr (JObj [(''system'', sampleSystemJson),
                    (''title'', JObj [(''name'', JStr ''Title''), (''type'', JStr ''text''),
                                      (''value'', JStr ''Hi'')])])"
proof -
  have a: "elementPropertyKeys sampleItem = [''system'', ''title'']"
    by code_simp
  have b: "snd (createItemNode sampleHost asciiChangeCase sampleItem) = Inr (sampleNode sampleHost)"
    by code_simp
  have c: "getProp (sampleNode sampleHost) ''elements''
       = Inr (JObj [(''system'', sampleSystemJson),
                    (''title'', JObj [(''name'', JStr ''Title''), (''type'', JStr ''text''),
                                      (''value'', JStr ''Hi'')])])"
    by (simp add: sampleNode_def nodeOf_props sampleSystemJson_def)
  from a b c show ?thesis by simp
qed

section \<open>The input item after the call\<close>

text \<open>
  Claim C8 says that \<^verbatim>\<open>createItemNode\<close> leaves its input item unchanged. For an element
  that is neither modular content nor rich text, \<^verbatim>\<open>fieldValue\<close> is the element object
  of the item itself, and \<^verbatim>\<open>delete fieldValue.rawData\<close> removes the property from it:
  after the call on the sample item, its text element has lost \<^verbatim>\<open>rawData\<close>.
\<close>

theorem input_item_mutated:
  "getOwn sampleItem ''title''
     = JObj [(''name'', JStr ''Title''), (''type'', JStr ''text''), (''value'', JStr ''Hi''),
             (''rawData'', JObj [(''value'', JStr ''Hi'')])]
   \<and> getOwn (fst (createItemNode sampleHost asciiChangeCase sampleItem)) ''title''
     = JObj [(''name'', JStr ''Title''), (''type'', JStr ''text''), (''value'', JStr ''Hi'')]
   \<and> fst (createItemNode sampleHost asciiChangeCase sampleItem) = sampleItemNoRaw
   \<and> fst (createItemNode sampleHost asciiChangeCase sampleItem) \<noteq> sampleItem"
proof -
  have a: "fst (createItemNode sampleHost asciiChangeCase sampleItem) = sampleItemNoRaw"
    by code_simp
  have b: "sampleItemNoRaw \<noteq> sampleItem"
    by (simp add: sampleItemNoRaw_def sampleItem_def)
  have c: "getOwn sampleItem ''title''
     = JObj [(''name'', JStr ''Title''), (''type'', JStr ''text''), (''value'', JStr ''Hi''),
             (''rawData'', JObj [(''value'', JStr ''Hi'')])]"
    by (simp add: sampleItem_def getOwn_def)
  have d: "getOwn sampleItemNoRaw ''title''
     = JObj [(''name'', JStr ''Title''), (''type'', JStr ''text''), (''value'', JStr ''Hi'')]"
    by (simp add: sampleItemNoRaw_def getOwn_def)
  from a b c d show ?thesis by simp
qed

section \<open>One node per item\<close>

lemma handleNodeCreation_all_ok:
  "map (\<lambda>item. snd (createItemNode h cc item)) (unionBy items linkedItems systemCodename)
     = map Inr nodes \<Longrightarrow>
   handleNodeCreation h cc (Inr (items, linkedItems)) = (map CreateNode nodes, None)"
  by (simp add: handleNodeCreation_def createNodes_all_ok)

lemma unionBy_three:
  assumes "systemCodename A = JStr a" "systemCodename B = JStr b"
    "systemCodename B' = JStr b" "systemCodename C = JStr c"
    "a \<noteq> b" "a \<noteq> c" "b \<noteq> c"
  shows "unionBy [A, B] [B', C] systemCodename = [A, B, C]"
  using assms by (simp add: unionBy_def strictEquals_def)

lemma articleItem_ok:
  "\<exists>node. snd (createItemNode h cc (articleItem codename idv title)) = Inr node"
proof -
  have "getOwn (articleItem codename idv title) ''system''
      = JObj [(''id'', JStr idv), (''codename'', JStr codename), (''type'', JStr ''article'')]"
    by (simp add: articleItem_def getOwn_def)
  from createItemNode_wellformed [OF this, of "''article''" idv cc h]
  show ?thesis by (auto simp: getOwn_def)
qed

lemma systemCodename_articleItem:
  "systemCodename (articleItem codename idv title) = JStr codename"
  by (simp add: systemCodename_def articleItem_def getOwn_def)

text \<open>
  Claim C3. Root items and linked items are merged into one list keyed by the system
  codename, the first occurrence winning: the codenames of the merged list are distinct, they
  are the codenames of the two lists, every merged item is the first one of the two lists
  (roots first) with its codename, and one node is created per merged item, in order. In
  particular roots \<^verbatim>\<open>[A, B]\<close> and linked items \<^verbatim>\<open>[B', C]\<close>, with \<^verbatim>\<open>B'\<close> of the
  same codename as \<^verbatim>\<open>B\<close>, give exactly the nodes of \<^verbatim>\<open>A\<close>, \<^verbatim>\<open>B\<close> and
  \<^verbatim>\<open>C\<close>, the node of \<^verbatim>\<open>B\<close> coming from the root list. (Codenames are primitive
  values, strings in practice.)
\<close>

theorem union_by_codename:
  "(list_all (\<lambda>item. isPrimitive (systemCodename item)) (items @ linkedItems) \<longrightarrow>
      distinct (map systemCodename (unionBy items linkedItems systemCodename))
    \<and> set (map systemCodename (unionBy items linkedItems systemCodename))
        = set (map systemCodename (items @ linkedItems))
    \<and> list_all (\<lambda>item. find (\<lambda>j. systemCodename j = systemCodename item) (items @ linkedItems)
                          = Some item)
        (unionBy items linkedItems systemCodename)
    \<and> (map (\<lambda>item. snd (createItemNode h cc item)) (unionBy items linkedItems systemCodename)
          = map Inr nodes
        \<longrightarrow> (handleNodeCreation h cc (Inr (items, linkedItems)) :: 'td hostCall list \<times> error option)
              = (map CreateNode nodes, None)))
   \<and> (systemCodename A = JStr a \<and> systemCodename B = JStr b
      \<and> systemCodename B' = JStr b \<and> systemCodename C = JStr c
      \<and> a \<noteq> b \<and> a \<noteq> c \<and> b \<noteq> c
      \<and> snd (createItemNode h cc A) = Inr nodeA \<and> snd (createItemNode h cc B) = Inr nodeB
      \<and> snd (createItemNode h cc C) = Inr nodeC
      \<longrightarrow> unionBy [A, B] [B', C] systemCodename = [A, B, C]
        \<and> (handleNodeCreation h cc (Inr ([A, B], [B', C])) :: 'td hostCall list \<times> error option)
            = ([CreateNode nodeA, CreateNode nodeB, CreateNode nodeC], None))"
proof (intro conjI impI)
  assume p: "list_all (\<lambda>item. isPrimitive (systemCodename item)) (items @ linkedItems)"
  show "distinct (map systemCodename (unionBy items linkedItems systemCodename))"
    unfolding unionBy_def by (rule distinct_baseUniq [OF p])
  show "set (map systemCodename (unionBy items linkedItems systemCodename))
        = set (map systemCodename (items @ linkedItems))"
    unfolding unionBy_def keys_baseUniq [OF p] by simp
  show "list_all (\<lambda>item. find (\<lambda>j. systemCodename j = systemCodename item) (items @ linkedItems)
                          = Some item)
        (unionBy items linkedItems systemCodename)"
    unfolding list_all_iff unionBy_def
  proof
    fix x assume "x \<in> set (baseUniq systemCodename (items @ linkedItems) [])"
    from first_baseUniq [OF p this]
    show "find (\<lambda>j. systemCodename j = systemCodename x) (items @ linkedItems) = Some x"
      by simp
  qed
next
  assume "map (\<lambda>item. snd (createItemNode h cc item)) (unionBy items linkedItems systemCodename)
          = map Inr nodes"
  then show "(handleNodeCreation h cc (Inr (items, linkedItems)) :: 'td hostCall list \<times> error option)
              = (map CreateNode nodes, None)"
    by (rule handleNodeCreation_all_ok)
next
  assume h: "systemCodename A = JStr a \<and> systemCodename B = JStr b
      \<and> systemCodename B' = JStr b \<and> systemCodename C = JStr c
      \<and> a \<noteq> b \<and> a \<noteq> c \<and> b \<noteq> c
      \<and> snd (createItemNode h cc A) = Inr nodeA \<and> snd (createItemNode h cc B) = Inr nodeB
      \<and> snd (createItemNode h cc C) = Inr nodeC"
  then have u: "unionBy [A, B] [B', C] systemCodename = [A, B, C]"
    using unionBy_three [of A a B b B' C c] by blast
  then show "unionBy [A, B] [B', C] systemCodename = [A, B, C]" .
  from h u have "map (\<lambda>item. snd (createItemNode h cc item)) (unionBy [A, B] [B', C] systemCodename)
      = map Inr [nodeA, nodeB, nodeC]"
    by simp
  from handleNodeCreation_all_ok [OF this]
  show "(handleNodeCreation h cc (Inr ([A, B], [B', C])) :: 'td hostCall list \<times> error option)
            = ([CreateNode nodeA, CreateNode nodeB, CreateNode nodeC], None)"
    by simp
qed

theorem union_by_codename_witness:
  "list_all (\<lambda>item. isPrimitive (systemCodename item)) ([itemA, itemB] @ [itemBLinked, itemC])
   \<and> systemCodename itemA = JStr ''a'' \<and> systemCodename itemB = JStr ''b''
   \<and> systemCodename itemBLinked = JStr ''b'' \<and> systemCodename itemC = JStr ''c''
   \<and> itemBLinked \<noteq> itemB
   \<and> unionBy [itemA, itemB] [itemBLinked, itemC] systemCodename = [itemA, itemB, itemC]
   \<and> distinct (map systemCodename (unionBy [itemA, itemB] [itemBLinked, itemC] systemCodename))
   \<and> set (map systemCodename (unionBy [itemA, itemB] [itemBLinked, itemC] systemCodename))
       = {JStr ''a'', JStr ''b'', JStr ''c''}
   \<and> (\<exists>nodeA nodeB nodeC.
         snd (createItemNode sampleHost asciiChangeCase itemA) = Inr nodeA
       \<and> snd (createItemNode sampleHost asciiChangeCase itemB) = Inr nodeB
       \<and> snd (createItemNode sampleHost asciiChangeCase itemC) = Inr nodeC
       \<and> snd (createItemNode sampleHost asciiChangeCase itemBLinked) \<noteq> Inr nodeB
       \<and> (handleNodeCreation sampleHost asciiChangeCase
             (Inr ([itemA, itemB], [itemBLinked, itemC])) :: unit hostCall list \<times> error option)
           = ([CreateNode nodeA, CreateNode nodeB, CreateNode nodeC], None))"
proof -
  have k: "systemCodename itemA = JStr ''a''" "systemCodename itemB = JStr ''b''"
    "systemCodename itemBLinked = JStr ''b''" "systemCodename itemC = JStr ''c''"
    by (simp_all add: itemA_def itemB_def itemBLinked_def itemC_def systemCodename_articleItem)
  have p: "list_all (\<lambda>item. isPrimitive (systemCodename item))
      ([itemA, itemB] @ [itemBLinked, itemC])"
    by (simp add: k)
  have ne: "itemBLinked \<noteq> itemB"
    by (simp add: itemBLinked_def itemB_def articleItem_def)
  obtain nodeA where a: "snd (createItemNode sampleHost asciiChangeCase itemA) = Inr nodeA"
    using articleItem_ok unfolding itemA_def by blast
  obtain nodeB where b: "snd (createItemNode sampleHost asciiChangeCase itemB) = Inr nodeB"
    using articleItem_ok unfolding itemB_def by blast
  obtain nodeC where c: "snd (createItemNode sampleHost asciiChangeCase itemC) = Inr nodeC"
    using articleItem_ok unfolding itemC_def by blast
  have "snd (createItemNode sampleHost asciiChangeCase itemBLinked)
      \<noteq> snd (createItemNode sampleHost asciiChangeCase itemB)"
    by code_simp
  with b have d: "snd (createItemNode sampleHost asciiChangeCase itemBLinked) \<noteq> Inr nodeB"
    by simp
  note t = union_by_codename [of "[itemA, itemB]" "[itemBLinked, itemC]"
      sampleHost asciiChangeCase "[nodeA, nodeB, nodeC]"
      itemA "''a''" itemB "''b''" itemBLinked itemC "''c''" nodeA nodeB nodeC,
      where ?'td = unit]
  from t k a b c have u: "unionBy [itemA, itemB] [itemBLinked, itemC] systemCodename
      = [itemA, itemB, itemC]"
    and hn: "(handleNodeCreation sampleHost asciiChangeCase
             (Inr ([itemA, itemB], [itemBLinked, itemC])) :: unit hostCall list \<times> error option)
           = ([CreateNode nodeA, CreateNode nodeB, CreateNode nodeC], None)"
    by simp_all
  from t p have di: "distinct (map systemCodename
      (unionBy [itemA, itemB] [itemBLinked, itemC] systemCodename))"
    by blast
  have se: "set (map systemCodename (unionBy [itemA, itemB] [itemBLinked, itemC] systemCodename))
       = {JStr ''a'', JStr ''b'', JStr ''c''}"
    by (simp add: u k)
  from a b c d hn have "\<exists>nodeA nodeB nodeC.
         snd (createItemNode sampleHost asciiChangeCase itemA) = Inr nodeA
       \<and> snd (createItemNode sampleHost asciiChangeCase itemB) = Inr nodeB
       \<and> snd (createItemNode sampleHost asciiChangeCase itemC) = Inr nodeC
       \<and> snd (createItemNode sampleHost asciiChangeCase itemBLinked) \<noteq> Inr nodeB
       \<and> (handleNodeCreation sampleHost asciiChangeCase
             (Inr ([itemA, itemB], [itemBLinked, itemC])) :: unit hostCall list \<times> error option)
           = ([CreateNode nodeA, CreateNode nodeB, CreateNode nodeC], None)"
    by blast
  with p k ne u di se show ?thesis by simp
qed

section \<open>The order of the host calls\<close>

lemma handleTypeCreation_Inr:
  "handleTypeCreation b cc (Inr types) = (registration b cc types, None)"
  by (simp add: handleTypeCreation_def registration_def fold_concat)

lemma handleTypeCreation_Inl:
  "handleTypeCreation b cc (Inl e) = ([CreateTypesSdl createBaseTypes], Some e)"
  by (simp add: handleTypeCreation_def)

lemma handleNodeCreation_calls:
  "\<exists>nodes. fst (handleNodeCreation h cc response :: 'td hostCall list \<times> error option)
     = map CreateNode nodes"
proof (cases response)
  case (Inl e)
  then show ?thesis by (simp add: handleNodeCreation_def)
next
  case (Inr r)
  then show ?thesis
    using createNodes_calls [of h cc "unionBy (fst r) (snd r) systemCodename", where ?'td = 'td]
    by (simp add: handleNodeCreation_def)
qed

lemma sourceNodes_shape:
  fixes b :: "objectTypeConfig \<Rightarrow> 'td"
  assumes "sourceNodes b h cc typesResponse itemsResponse = (calls, r)"
  shows "(\<exists>types nodes. typesResponse = Inr types
            \<and> calls = registration b cc types @ map CreateNode nodes)
       \<or> (\<exists>e. typesResponse = Inl e \<and> calls = [CreateTypesSdl createBaseTypes] \<and> r = Some e)"
proof (cases typesResponse)
  case (Inl e)
  with assms show ?thesis
    by (simp add: sourceNodes_def handleTypeCreation_Inl)
next
  case (Inr types)
  obtain nodes where
    n: "fst (handleNodeCreation h cc itemsResponse :: 'td hostCall list \<times> error option)
        = map CreateNode nodes"
    using handleNodeCreation_calls [of h cc itemsResponse, where ?'td = 'td] by blast
  from assms Inr have "calls = registration b cc types
      @ fst (handleNodeCreation h cc itemsResponse :: 'td hostCall list \<times> error option)"
    by (simp add: sourceNodes_def handleTypeCreation_Inr Let_def)
  with n Inr show ?thesis by blast
qed

text \<open>
  Claim C9. In every run the schema is registered before any node is created. The calls of
  a run are the registration of the base declarations, then the registration of the
  declarations of all content types, then node creations only; or, when the content types
  cannot be fetched, the registration of the base declarations alone. So whenever a node is
  created, the calls before it begin with both registrations, and all calls between them
  and it are node creations.
\<close>

theorem registration_before_nodes:
  assumes "sourceNodes b h cc typesResponse itemsResponse = (calls, r)"
  shows "((\<exists>types nodes. typesResponse = Inr types
            \<and> calls = CreateTypesSdl createBaseTypes
                      # CreateTypes (concat (map (createTypeDef b cc) types))
                      # map CreateNode nodes)
          \<or> (\<exists>e. typesResponse = Inl e \<and> calls = [CreateTypesSdl createBaseTypes]
                 \<and> r = Some e))
       \<and> (\<forall>before node after. calls = before @ CreateNode node # after \<longrightarrow>
            (\<exists>types nodes. typesResponse = Inr types
               \<and> before = CreateTypesSdl createBaseTypes
                          # CreateTypes (concat (map (createTypeDef b cc) types))
                          # map CreateNode nodes))"
proof (intro conjI allI impI)
  from sourceNodes_shape [OF assms]
  show "(\<exists>types nodes. typesResponse = Inr types
            \<and> calls = CreateTypesSdl createBaseTypes
                      # CreateTypes (concat (map (createTypeDef b cc) types))
                      # map CreateNode nodes)
          \<or> (\<exists>e. typesResponse = Inl e \<and> calls = [CreateTypesSdl createBaseTypes]
                 \<and> r = Some e)"
    by (simp add: registration_def)
next
  fix before node after
  assume split: "calls = before @ CreateNode node # after"
  from sourceNodes_shape [OF assms] split
  obtain types nodes where t: "typesResponse = Inr types"
    and c: "before @ CreateNode node # after = registration b cc types @ map CreateNode nodes"
    by (auto simp: append_eq_Cons_conv)
  let ?X = "CreateTypesSdl createBaseTypes"
  let ?Y = "CreateTypes (concat (map (createTypeDef b cc) types))"
  from c have c': "before @ CreateNode node # after = ?X # ?Y # map CreateNode nodes"
    by (simp add: registration_def)
  then obtain b1 where b1: "before = ?X # b1" "b1 @ CreateNode node # after = ?Y # map CreateNode nodes"
    by (cases before) auto
  then obtain b2 where b2: "b1 = ?Y # b2" "b2 @ CreateNode node # after = map CreateNode nodes"
    by (cases b1) auto
  from b2(2) have "b2 = map CreateNode (take (length b2) nodes)"
    by (metis append_eq_conv_conj take_map)
  with b1 b2 t show "\<exists>types nodes. typesResponse = Inr types
               \<and> before = CreateTypesSdl createBaseTypes
                          # CreateTypes (concat (map (createTypeDef b cc) types))
                          # map CreateNode nodes"
    by blast
qed

theorem registration_before_nodes_witness:
  "sourceNodes (\<lambda>config. config) sampleHost asciiChangeCase
       (Inr [blogPostType]) (Inr ([sampleItem], []))
     = (sampleRun, None)
   \<and> sampleRun = [CreateTypesSdl createBaseTypes,
                    CreateTypes (createTypeDef (\<lambda>config. config) asciiChangeCase blogPostType)]
                 @ CreateNode (sampleNode sampleHost) # []
   \<and> (\<exists>types nodes. (Inr [blogPostType] :: error + contentType list) = Inr types
         \<and> [CreateTypesSdl createBaseTypes,
              CreateTypes (createTypeDef (\<lambda>config. config) asciiChangeCase blogPostType)]
             = CreateTypesSdl createBaseTypes
               # CreateTypes (concat (map (createTypeDef (\<lambda>config. config) asciiChangeCase) types))
               # map CreateNode nodes)"
proof -
  have node: "snd (createItemNode sampleHost asciiChangeCase sampleItem)
      = Inr (sampleNode sampleHost)"
    by code_simp
  have u: "unionBy [sampleItem] [] systemCodename = [sampleItem]"
    by (simp add: unionBy_def)
  have run: "sourceNodes (\<lambda>config. config) sampleHost asciiChangeCase
       (Inr [blogPostType]) (Inr ([sampleItem], []))
     = (sampleRun, None)"
    by (simp add: sourceNodes_def handleTypeCreation_def handleNodeCreation_def u node
        sampleRun_def)
  have split: "sampleRun = [CreateTypesSdl createBaseTypes,
                    CreateTypes (createTypeDef (\<lambda>config. config) asciiChangeCase blogPostType)]
                 @ CreateNode (sampleNode sampleHost) # []"
    by (simp add: sampleRun_def)
  from registration_before_nodes [OF run] split
  have "\<exists>types nodes. (Inr [blogPostType] :: error + contentType list) = Inr types
         \<and> [CreateTypesSdl createBaseTypes,
              CreateTypes (createTypeDef (\<lambda>config. config) asciiChangeCase blogPostType)]
             = CreateTypesSdl createBaseTypes
               # CreateTypes (concat (map (createTypeDef (\<lambda>config. config) asciiChangeCase) types))
               # map CreateNode nodes"
    by blast
  with run split show ?thesis by blast
qed

section \<open>The declarations of a content type\<close>

lemma elementFieldsOf_snoc:
  "elementFieldsOf cc (es @ [e]) = objSet (fst (elementField cc e)) (snd (elementField cc e)) (elementFieldsOf cc es)"
  by (simp add: elementFieldsOf_def elementField_def)

lemma elementFieldsOf_Nil: "elementFieldsOf cc [] = []"
  by (simp add: elementFieldsOf_def)

lemma map_of_elementFieldsOf:
  "map_of (elementFieldsOf cc es) = map_of (rev (map (elementField cc) es))"
proof (induction es rule: rev_induct)
  case Nil
  show ?case by (simp add: elementFieldsOf_Nil)
next
  case (snoc e es)
  show ?case
  proof
    fix k
    show "map_of (elementFieldsOf cc (es @ [e])) k = map_of (rev (map (elementField cc) (es @ [e]))) k"
      by (cases "elementField cc e") (simp add: elementFieldsOf_snoc map_of_objSet snoc.IH)
  qed
qed

lemma keys_elementFieldsOf:
  "fst ` set (elementFieldsOf cc es) = (\<lambda>e. getGraphFieldName cc (elementCodename e)) ` set es"
proof (induction es rule: rev_induct)
  case Nil
  show ?case by (simp add: elementFieldsOf_Nil)
next
  case (snoc e es)
  then show ?case
    by (simp add: elementFieldsOf_snoc keys_objSet elementField_def)
qed

lemma distinct_elementFieldsOf: "distinct (map fst (elementFieldsOf cc es))"
proof (induction es rule: rev_induct)
  case Nil
  show ?case by (simp add: elementFieldsOf_Nil)
next
  case (snoc e es)
  then show ?case
    by (simp add: elementFieldsOf_snoc distinct_objSet)
qed

lemma elementFieldsOf_distinct_names:
  assumes "distinct (map (\<lambda>e. getGraphFieldName cc (elementCodename e)) es)" and "e \<in> set es"
  shows "map_of (elementFieldsOf cc es) (getGraphFieldName cc (elementCodename e))
           = Some (FieldObject (getElementValueType cc (elementType e)))"
proof -
  have "map fst (rev (map (elementField cc) es))
      = rev (map (\<lambda>e. getGraphFieldName cc (elementCodename e)) es)"
    by (simp add: rev_map elementField_def comp_def)
  with assms(1) have d: "distinct (map fst (rev (map (elementField cc) es)))"
    by simp
  from assms(2) have "elementField cc e \<in> set (rev (map (elementField cc) es))"
    by simp
  then have "(getGraphFieldName cc (elementCodename e),
              FieldObject (getElementValueType cc (elementType e)))
      \<in> set (rev (map (elementField cc) es))"
    by (simp add: elementField_def)
  from map_of_is_SomeI [OF d this] show ?thesis
    by (simp add: map_of_elementFieldsOf)
qed

text \<open>
  Claim C2 as stated has the fields of the elements type map the camel-case codename of
  every element definition to the value type of its kind. The fields are built by
  \<^verbatim>\<open>Object.assign\<close>, so of two element definitions with the same field name the later
  one overwrites the earlier: the content type with elements \<^verbatim>\<open>a_b\<close> (text) and
  \<^verbatim>\<open>a__b\<close> (number) gets the single field \<^verbatim>\<open>aB\<close> of type
  \<^verbatim>\<open>KontentNumberElement\<close>, and the text element is not mapped to
  \<^verbatim>\<open>KontentTextElement\<close>.
\<close>

theorem type_declarations_counterexample:
  "createTypeDef (\<lambda>config. config) asciiChangeCase collidingType
     = [\<lparr>configName = ''KontentItemPageElements'',
         configFields = [(''aB'', FieldObject ''KontentNumberElement'')],
         configInterfaces = None, configInfer = False\<rparr>,
        \<lparr>configName = ''KontentItemPage'',
         configFields = [(''system'', FieldString ''KontentItemSystem!''),
                         (''elements'', FieldString ''KontentItemPageElements'')],
         configInterfaces = Some [''Node'', ''KontentItem''], configInfer = False\<rparr>]
   \<and> typeElements collidingType
       = [\<lparr>elementCodename = ''a_b'', elementType = ''text''\<rparr>,
          \<lparr>elementCodename = ''a__b'', elementType = ''number''\<rparr>]
   \<and> camelCase asciiChangeCase ''a_b'' = ''aB''
   \<and> ''Kontent'' @ pascalCase asciiChangeCase ''text'' @ ''Element'' = ''KontentTextElement''
   \<and> map_of (configFields (hd (createTypeDef (\<lambda>config. config) asciiChangeCase collidingType)))
         (camelCase asciiChangeCase ''a_b'')
       \<noteq> Some (FieldObject (''Kontent'' @ pascalCase asciiChangeCase ''text'' @ ''Element''))"
proof -
  have a: "createTypeDef (\<lambda>config. config) asciiChangeCase collidingType
     = [\<lparr>configName = ''KontentItemPageElements'',
         configFields = [(''aB'', FieldObject ''KontentNumberElement'')],
         configInterfaces = None, configInfer = False\<rparr>,
        \<lparr>configName = ''KontentItemPage'',
         configFields = [(''system'', FieldString ''KontentItemSystem!''),
                         (''elements'', FieldString ''KontentItemPageElements'')],
         configInterfaces = Some [''Node'', ''KontentItem''], configInfer = False\<rparr>]"
    by code_simp
  have b: "camelCase asciiChangeCase ''a_b'' = ''aB''"
    by code_simp
  have c: "''Kontent'' @ pascalCase asciiChangeCase ''text'' @ ''Element'' = ''KontentTextElement''"
    by code_simp
  show ?thesis
    unfolding a b c by (simp add: collidingType_def)
qed

text \<open>
  Claim C2, amended. For every content type, \<^verbatim>\<open>createTypeDef\<close> produces exactly two
  declarations. The first is the elements object type, named \<^verbatim>\<open>KontentItem\<close> +
  PascalCase(codename) + \<^verbatim>\<open>Elements\<close>; its field names are the camel-case codenames of
  the element definitions, each once, and a field maps to \<^verbatim>\<open>Kontent\<close> +
  PascalCase(kind) + \<^verbatim>\<open>Element\<close> for the kind of the last element definition with that
  field name: of every element definition, when the field names of the type are distinct.
  The second is the item object type, named \<^verbatim>\<open>KontentItem\<close> + PascalCase(codename), with
  exactly the two fields \<^verbatim>\<open>system: KontentItemSystem!\<close> and \<^verbatim>\<open>elements\<close> of the
  elements type, implementing \<^verbatim>\<open>Node\<close> and \<^verbatim>\<open>KontentItem\<close>. The type
  \<^verbatim>\<open>blog_post\<close> with the text element \<^verbatim>\<open>title\<close> yields
  \<^verbatim>\<open>KontentItemBlogPostElements { title: KontentTextElement }\<close> and
  \<^verbatim>\<open>KontentItemBlogPost { system: KontentItemSystem!, elements: KontentItemBlogPostElements }\<close>.
\<close>

theorem type_declarations:
  "createTypeDef buildObjectType cc type
     = [buildObjectType
          \<lparr>configName = ''KontentItem'' @ pascalCase cc (typeCodename type) @ ''Elements'',
           configFields = elementFieldsOf cc (typeElements type),
           configInterfaces = None, configInfer = False\<rparr>,
        buildObjectType
          \<lparr>configName = ''KontentItem'' @ pascalCase cc (typeCodename type),
           configFields =
             [(''system'', FieldString ''KontentItemSystem!''),
              (''elements'',
               FieldString (''KontentItem'' @ pascalCase cc (typeCodename type) @ ''Elements''))],
           configInterfaces = Some [''Node'', ''KontentItem''], configInfer = False\<rparr>]
   \<and> map_of (elementFieldsOf cc (typeElements type))
       = map_of (rev (map (\<lambda>element.
                             (camelCase cc (elementCodename element),
                              FieldObject (''Kontent'' @ pascalCase cc (elementType element)
                                           @ ''Element'')))
                        (typeElements type)))
   \<and> fst ` set (elementFieldsOf cc (typeElements type))
       = (\<lambda>element. camelCase cc (elementCodename element)) ` set (typeElements type)
   \<and> distinct (map fst (elementFieldsOf cc (typeElements type)))
   \<and> (distinct (map (\<lambda>element. camelCase cc (elementCodename element)) (typeElements type))
        \<longrightarrow> (\<forall>element \<in> set (typeElements type).
               map_of (elementFieldsOf cc (typeElements type))
                 (camelCase cc (elementCodename element))
               = Some (FieldObject (''Kontent'' @ pascalCase cc (elementType element)
                                    @ ''Element''))))
   \<and> createTypeDef (\<lambda>config. config) asciiChangeCase blogPostType
       = [\<lparr>configName = ''KontentItemBlogPostElements'',
           configFields = [(''title'', FieldObject ''KontentTextElement'')],
           configInterfaces = None, configInfer = False\<rparr>,
          \<lparr>configName = ''KontentItemBlogPost'',
           configFields = [(''system'', FieldString ''KontentItemSystem!''),
                           (''elements'', FieldString ''KontentItemBlogPostElements'')],
           configInterfaces = Some [''Node'', ''KontentItem''], configInfer = False\<rparr>]"
proof (intro conjI impI ballI)
  show "createTypeDef buildObjectType cc type
     = [buildObjectType
          \<lparr>configName = ''KontentItem'' @ pascalCase cc (typeCodename type) @ ''Elements'',
           configFields = elementFieldsOf cc (typeElements type),
           configInterfaces = None, configInfer = False\<rparr>,
        buildObjectType
          \<lparr>configName = ''KontentItem'' @ pascalCase cc (typeCodename type),
           configFields =
             [(''system'', FieldString ''KontentItemSystem!''),
              (''elements'',
               FieldString (''KontentItem'' @ pascalCase cc (typeCodename type) @ ''Elements''))],
           configInterfaces = Some [''Node'', ''KontentItem''], configInfer = False\<rparr>]"
    by (simp add: createTypeDef_def getGraphTypeName_def)
  have ef: "elementField cc = (\<lambda>element.
      (camelCase cc (elementCodename element),
       FieldObject (''Kontent'' @ pascalCase cc (elementType element) @ ''Element'')))"
    by (simp add: fun_eq_iff elementField_def getGraphFieldName_def getElementValueType_def)
  show "map_of (elementFieldsOf cc (typeElements type))
       = map_of (rev (map (\<lambda>element.
                             (camelCase cc (elementCodename element),
                              FieldObject (''Kontent'' @ pascalCase cc (elementType element)
                                           @ ''Element'')))
                        (typeElements type)))"
    using map_of_elementFieldsOf [of cc "typeElements type"] by (simp only: ef)
  show "fst ` set (elementFieldsOf cc (typeElements type))
       = (\<lambda>element. camelCase cc (elementCodename element)) ` set (typeElements type)"
    by (simp add: keys_elementFieldsOf getGraphFieldName_def)
  show "distinct (map fst (elementFieldsOf cc (typeElements type)))"
    by (rule distinct_elementFieldsOf)
  show "createTypeDef (\<lambda>config. config) asciiChangeCase blogPostType
       = [\<lparr>configName = ''KontentItemBlogPostElements'',
           configFields = [(''title'', FieldObject ''KontentTextElement'')],
           configInterfaces = None, configInfer = False\<rparr>,
          \<lparr>configName = ''KontentItemBlogPost'',
           configFields = [(''system'', FieldString ''KontentItemSystem!''),
                           (''elements'', FieldString ''KontentItemBlogPostElements'')],
           configInterfaces = Some [''Node'', ''KontentItem''], configInfer = False\<rparr>]"
    by code_simp
next
  fix element
  assume d: "distinct (map (\<lambda>element. camelCase cc (elementCodename element)) (typeElements type))"
    and m: "element \<in> set (typeElements type)"
  from d have "distinct (map (\<lambda>e. getGraphFieldName cc (elementCodename e)) (typeElements type))"
    by (simp add: getGraphFieldName_def)
  from elementFieldsOf_distinct_names [OF this m]
  show "map_of (elementFieldsOf cc (typeElements type)) (camelCase cc (elementCodename element))
      = Some (FieldObject (''Kontent'' @ pascalCase cc (elementType element) @ ''Element''))"
    by (simp add: getGraphFieldName_def getElementValueType_def)
qed

theorem type_declarations_witness:
  "distinct (map (\<lambda>element. camelCase asciiChangeCase (elementCodename element))
               (typeElements blogPostType))
   \<and> \<lparr>elementCodename = ''title'', elementType = ''text''\<rparr> \<in> set (typeElements blogPostType)
   \<and> map_of (elementFieldsOf asciiChangeCase (typeElements blogPostType)) ''title''
       = Some (FieldObject ''KontentTextElement'')"
proof -
  have d: "distinct (map (\<lambda>element. camelCase asciiChangeCase (elementCodename element))
               (typeElements blogPostType))"
    by (simp add: blogPostType_def)
  have m: "\<lparr>elementCodename = ''title'', elementType = ''text''\<rparr> \<in> set (typeElements blogPostType)"
    by (simp add: blogPostType_def)
  have c: "camelCase asciiChangeCase ''title'' = ''title''"
    "''Kontent'' @ pascalCase asciiChangeCase ''text'' @ ''Element'' = ''KontentTextElement''"
    by code_simp+
  from type_declarations [of "\<lambda>config. config" asciiChangeCase blogPostType] d m
  have "map_of (elementFieldsOf asciiChangeCase (typeElements blogPostType))
          (camelCase asciiChangeCase (elementCodename \<lparr>elementCodename = ''title'', elementType = ''text''\<rparr>))
        = Some (FieldObject (''Kontent''
            @ pascalCase asciiChangeCase (elementType \<lparr>elementCodename = ''title'', elementType = ''text''\<rparr>)
            @ ''Element''))"
    by blast
  with c d m show ?thesis by simp
qed

lemma elementFieldsOf_last_name:
  assumes "getGraphFieldName cc (elementCodename e)
             \<notin> (\<lambda>x. getGraphFieldName cc (elementCodename x)) ` set after"
  shows "map_of (elementFieldsOf cc (before @ e # after)) (getGraphFieldName cc (elementCodename e))
           = Some (FieldObject (getElementValueType cc (elementType e)))"
proof -
  let ?k = "getGraphFieldName cc (elementCodename e)"
  have "fst ` set (rev (map (elementField cc) after))
      = (\<lambda>x. getGraphFieldName cc (elementCodename x)) ` set after"
    by (force simp: elementField_def)
  with assms have none: "map_of (rev (map (elementField cc) after)) ?k = None"
    by (simp add: map_of_eq_None_iff)
  have "rev (map (elementField cc) (before @ e # after))
      = rev (map (elementField cc) after) @ elementField cc e # rev (map (elementField cc) before)"
    by simp
  then have "map_of (rev (map (elementField cc) (before @ e # after))) ?k
      = map_of (elementField cc e # rev (map (elementField cc) before)) ?k"
    using none by (simp add: map_add_def)
  also have "\<dots> = Some (FieldObject (getElementValueType cc (elementType e)))"
    by (simp add: elementField_def)
  finally show ?thesis
    by (simp add: map_of_elementFieldsOf)
qed

lemma createTypeDef_in_registration:
  "type \<in> set types \<Longrightarrow>
   buildObjectType
     \<lparr>configName = getGraphTypeName cc (typeCodename type) @ ''Elements'',
      configFields = elementFieldsOf cc (typeElements type),
      configInterfaces = None, configInfer = False\<rparr>
   \<in> set (concat (map (createTypeDef buildObjectType cc) types))"
  by (auto simp: createTypeDef_def)

text \<open>
  Claim C6. Every element kind, in the catalog of nine or not, is mapped to the value type
  name \<^verbatim>\<open>Kontent\<close> + PascalCase(kind) + \<^verbatim>\<open>Element\<close>, and type projection does not
  abort on it. For every fetched list of content types and every element definition of one
  of them, of any kind, \<^verbatim>\<open>handleTypeCreation\<close> ends without error after registering the
  base declarations and the declarations of the content types, and among the latter is the
  elements type of that content type, in which the field of the element definition has that
  name as its type (when no later element definition of the type has the same field name,
  which would overwrite it). The kind \<^verbatim>\<open>new_kind_v2\<close> yields
  \<^verbatim>\<open>KontentNewKindV2Element\<close>.
\<close>

theorem unknown_kind_registered:
  assumes "type \<in> set types"
    and "typeElements type = before @ \<lparr>elementCodename = codename, elementType = kind\<rparr> # after"
    and "camelCase cc codename \<notin> (\<lambda>element. camelCase cc (elementCodename element)) ` set after"
  shows "\<exists>declarations config.
           handleTypeCreation buildObjectType cc (Inr types)
             = ([CreateTypesSdl createBaseTypes, CreateTypes declarations], None)
         \<and> declarations = concat (map (createTypeDef buildObjectType cc) types)
         \<and> buildObjectType config \<in> set declarations
         \<and> configName config = ''KontentItem'' @ pascalCase cc (typeCodename type) @ ''Elements''
         \<and> map_of (configFields config) (camelCase cc codename)
             = Some (FieldObject (''Kontent'' @ pascalCase cc kind @ ''Element''))"
proof -
  let ?config = "\<lparr>configName = getGraphTypeName cc (typeCodename type) @ ''Elements'',
      configFields = elementFieldsOf cc (typeElements type),
      configInterfaces = None, configInfer = False\<rparr>"
  let ?e = "\<lparr>elementCodename = codename, elementType = kind\<rparr>"
  have run: "handleTypeCreation buildObjectType cc (Inr types)
      = ([CreateTypesSdl createBaseTypes,
          CreateTypes (concat (map (createTypeDef buildObjectType cc) types))], None)"
    by (simp add: handleTypeCreation_Inr registration_def)
  have mem: "buildObjectType ?config \<in> set (concat (map (createTypeDef buildObjectType cc) types))"
    by (rule createTypeDef_in_registration [OF assms(1)])
  from assms(3) have "getGraphFieldName cc (elementCodename ?e)
      \<notin> (\<lambda>x. getGraphFieldName cc (elementCodename x)) ` set after"
    by (simp add: getGraphFieldName_def)
  from elementFieldsOf_last_name [OF this, of before]
  have field: "map_of (configFields ?config) (camelCase cc codename)
      = Some (FieldObject (''Kontent'' @ pascalCase cc kind @ ''Element''))"
    by (simp add: assms(2) getGraphFieldName_def getElementValueType_def)
  have name: "configName ?config = ''KontentItem'' @ pascalCase cc (typeCodename type) @ ''Elements''"
    by (simp add: getGraphTypeName_def)
  from run mem field name show ?thesis by blast
qed

theorem unknown_kind_registered_witness:
  "newKindType \<in> set [blogPostType, newKindType]
   \<and> typeElements newKindType
       = [] @ \<lparr>elementCodename = ''extra'', elementType = ''new_kind_v2''\<rparr> # []
   \<and> camelCase asciiChangeCase ''extra''
       \<notin> (\<lambda>element. camelCase asciiChangeCase (elementCodename element)) ` set []
   \<and> getElementValueType asciiChangeCase ''new_kind_v2'' = ''KontentNewKindV2Element''
   \<and> handleTypeCreation (\<lambda>config. config) asciiChangeCase (Inr [blogPostType, newKindType])
       = ([CreateTypesSdl createBaseTypes,
           CreateTypes
             [\<lparr>configName = ''KontentItemBlogPostElements'',
               configFields = [(''title'', FieldObject ''KontentTextElement'')],
               configInterfaces = None, configInfer = False\<rparr>,
              \<lparr>configName = ''KontentItemBlogPost'',
               configFields = [(''system'', FieldString ''KontentItemSystem!''),
                               (''elements'', FieldString ''KontentItemBlogPostElements'')],
               configInterfaces = Some [''Node'', ''KontentItem''], configInfer = False\<rparr>,
              \<lparr>configName = ''KontentItemPageElements'',
               configFields = [(''extra'', FieldObject ''KontentNewKindV2Element'')],
               configInterfaces = None, configInfer = False\<rparr>,
              \<lparr>configName = ''KontentItemPage'',
               configFields = [(''system'', FieldString ''KontentItemSystem!''),
                               (''elements'', FieldString ''KontentItemPageElements'')],
               configInterfaces = Some [''Node'', ''KontentItem''], configInfer = False\<rparr>]],
          None)
   \<and> (\<exists>declarations config.
         handleTypeCreation (\<lambda>config. config) asciiChangeCase (Inr [blogPostType, newKindType])
           = ([CreateTypesSdl createBaseTypes, CreateTypes declarations], None)
       \<and> config \<in> set declarations
       \<and> configName config = ''KontentItemPageElements''
       \<and> map_of (configFields config) ''extra'' = Some (FieldObject ''KontentNewKindV2Element''))"
proof -
  have a: "newKindType \<in> set [blogPostType, newKindType]"
    by simp
  have b: "typeElements newKindType
       = [] @ \<lparr>elementCodename = ''extra'', elementType = ''new_kind_v2''\<rparr> # []"
    by (simp add: newKindType_def)
  have c: "camelCase asciiChangeCase ''extra''
       \<notin> (\<lambda>element. camelCase asciiChangeCase (elementCodename element)) ` set []"
    by simp
  have n: "camelCase asciiChangeCase ''extra'' = ''extra''"
    "''KontentItem'' @ pascalCase asciiChangeCase (typeCodename newKindType) @ ''Elements''
       = ''KontentItemPageElements''"
    "''Kontent'' @ pascalCase asciiChangeCase ''new_kind_v2'' @ ''Element''
       = ''KontentNewKindV2Element''"
    "getElementValueType asciiChangeCase ''new_kind_v2'' = ''KontentNewKindV2Element''"
    by code_simp+
  have d: "concat (map (createTypeDef (\<lambda>config. config) asciiChangeCase) [blogPostType, newKindType])
       = [\<lparr>configName = ''KontentItemBlogPostElements'',
               configFields = [(''title'', FieldObject ''KontentTextElement'')],
               configInterfaces = None, configInfer = False\<rparr>,
              \<lparr>configName = ''KontentItemBlogPost'',
               configFields = [(''system'', FieldString ''KontentItemSystem!''),
                               (''elements'', FieldString ''KontentItemBlogPostElements'')],
               configInterfaces = Some [''Node'', ''KontentItem''], configInfer = False\<rparr>,
              \<lparr>configName = ''KontentItemPageElements'',
               configFields = [(''extra'', FieldObject ''KontentNewKindV2Element'')],
               configInterfaces = None, configInfer = False\<rparr>,
              \<lparr>configName = ''KontentItemPage'',
               configFields = [(''system'', FieldString ''KontentItemSystem!''),
                               (''elements'', FieldString ''KontentItemPageElements'')],
               configInterfaces = Some [''Node'', ''KontentItem''], configInfer = False\<rparr>]"
    by code_simp
  from unknown_kind_registered [OF a b c, of "\<lambda>config. config"]
  obtain declarations config where
    r: "handleTypeCreation (\<lambda>config. config) asciiChangeCase (Inr [blogPostType, newKindType])
           = ([CreateTypesSdl createBaseTypes, CreateTypes declarations], None)"
    and e: "declarations
        = concat (map (createTypeDef (\<lambda>config. config) asciiChangeCase) [blogPostType, newKindType])"
    and m: "config \<in> set declarations"
      "configName config = ''KontentItemPageElements''"
      "map_of (configFields config) ''extra'' = Some (FieldObject ''KontentNewKindV2Element'')"
    unfolding n by blast
  from r e d have full: "handleTypeCreation (\<lambda>config. config) asciiChangeCase
        (Inr [blogPostType, newKindType])
       = ([CreateTypesSdl createBaseTypes,
           CreateTypes
             [\<lparr>configName = ''KontentItemBlogPostElements'',
               configFields = [(''title'', FieldObject ''KontentTextElement'')],
               configInterfaces = None, configInfer = False\<rparr>,
              \<lparr>configName = ''KontentItemBlogPost'',
               configFields = [(''system'', FieldString ''KontentItemSystem!''),
                               (''elements'', FieldString ''KontentItemBlogPostElements'')],
               configInterfaces = Some [''Node'', ''KontentItem''], configInfer = False\<rparr>,
              \<lparr>configName = ''KontentItemPageElements'',
               configFields = [(''extra'', FieldObject ''KontentNewKindV2Element'')],
               configInterfaces = None, configInfer = False\<rparr>,
              \<lparr>configName = ''KontentItemPage'',
               configFields = [(''system'', FieldString ''KontentItemSystem!''),
                               (''elements'', FieldString ''KontentItemPageElements'')],
               configInterfaces = Some [''Node'', ''KontentItem''], configInfer = False\<rparr>]],
          None)"
    by simp
  from r m have ex: "\<exists>declarations config.
         handleTypeCreation (\<lambda>config. config) asciiChangeCase (Inr [blogPostType, newKindType])
           = ([CreateTypesSdl createBaseTypes, CreateTypes declarations], None)
       \<and> config \<in> set declarations
       \<and> configName config = ''KontentItemPageElements''
       \<and> map_of (configFields config) ''extra'' = Some (FieldObject ''KontentNewKindV2Element'')"
    by blast
  from a b c n(4) full ex show ?thesis by blast
qed

end
